theory Spec2Isabelle
  imports Complex_Main
begin

section \<open>Rocket Dodge: the frame loop of src/js/game.js\<close>

text \<open>
  The game keeps its state in the variables of one closure. The embedding collects them in
  the record \<open>game\<close>, together with the parts of the browser the loop reads and writes:
  the canvas size, the \<open>localStorage\<close> cell of the high score, the elements of the page the
  game writes numbers into, and the number of \<open>Math.random()\<close> draws made so far.

  JavaScript numbers are doubles. The counters of the game (score, level, frame count,
  shield time) only ever hold integers and are modelled as \<open>int\<close>; coordinates and speeds
  are modelled as \<open>real\<close>, so rounding is not modelled. Drawing calls and audio do not
  change the game state and are left out.
\<close>

subsection \<open>Data\<close>

record rocket =
  r_x :: real
  r_y :: real
  r_width :: real
  r_height :: real
  velocity :: real
  gravity :: real
  boost :: real
  hasShield :: bool
  shieldTime :: int
  rotation :: real

record obstacle =
  o_x :: real
  topHeight :: real
  bottomY :: real
  o_width :: real
  passed :: bool

record star =
  st_x :: real
  st_y :: real
  st_size :: real
  st_collected :: bool

record powerUp =
  pu_x :: real
  pu_y :: real
  pu_size :: real
  pu_collected :: bool
  pu_type :: string

datatype colour = Hex string | Hsl real

record particle =
  p_x :: real
  p_y :: real
  vx :: real
  vy :: real
  p_size :: real
  p_color :: colour
  life :: real

text \<open>
  An element of the page: the number last assigned to its \<open>textContent\<close> (\<open>None\<close> while
  it still shows the text of the markup) and its \<open>style.display\<close>.
\<close>

record element =
  textContent :: "int option"
  display :: string

record game =
  gameRunning :: bool
  score :: int
  highScore :: int
  level :: int
  frameCount :: int
  animationId :: "nat option"
  rocket :: rocket
  obstacles :: "obstacle list"
  stars :: "star list"
  powerUps :: "powerUp list"
  particles :: "particle list"
  confettiParticles :: "particle list"
  canvasWidth :: real
  canvasHeight :: real
  storage :: "int option"
  elements :: "string \<Rightarrow> element option"
  rng :: nat
  rafSeq :: nat

text \<open>
  \<open>storage\<close> is the item \<open>rocketDodgeHighScore\<close> of \<open>localStorage\<close> (\<open>None\<close>: never
  written); only the game writes it, so it holds the decimal text of an integer, which the
  comparison \<open>score > highScore\<close> converts back to that integer. \<open>rng\<close> counts the calls
  of \<open>Math.random()\<close> made so far. \<open>rafSeq\<close> counts the calls of
  \<open>requestAnimationFrame\<close>, whose handles are the positive integers in order.
\<close>

text \<open>
  What the browser computes for the game: the sequence of values of \<open>Math.random()\<close>,
  and the double-precision \<open>Math.cos\<close>, \<open>Math.sin\<close> and \<open>Math.PI\<close>, which only shape
  the particles of an explosion. Every function below takes the host as a parameter, and
  every theorem holds for all hosts.
\<close>

record host =
  random :: "nat \<Rightarrow> real"
  Math_cos :: "real \<Rightarrow> real"
  Math_sin :: "real \<Rightarrow> real"
  Math_PI :: real

subsection \<open>Game settings\<close>

definition obstacleSpeed :: real where
  "obstacleSpeed = 5 / 2"

definition obstacleGap :: real where
  "obstacleGap = 250"

definition obstacleFrequency :: int where
  "obstacleFrequency = 140"

definition initialRocket :: rocket where
  "initialRocket = \<lparr>r_x = 100, r_y = 0, r_width = 40, r_height = 40, velocity = 0,
     gravity = 1 / 2, boost = - 10, hasShield = False, shieldTime = 0, rotation = 0\<rparr>"

subsection \<open>Arithmetic of the host language\<close>

text \<open>
  The remainder \<open>a % b\<close> on integers: the sign of the dividend, the magnitude of the
  divisor, and \<open>NaN\<close> (here \<open>None\<close>) for a zero divisor. \<open>NaN === 0\<close> is false.
\<close>

definition js_rem :: "int \<Rightarrow> int \<Rightarrow> int option" where
  "js_rem a b = (if b = 0 then None else Some (sgn a * (\<bar>a\<bar> mod \<bar>b\<bar>)))"

definition hypot :: "real \<Rightarrow> real \<Rightarrow> real" where
  "hypot a b = sqrt (a\<^sup>2 + b\<^sup>2)"

subsection \<open>Score display\<close>

definition setText :: "string \<Rightarrow> int \<Rightarrow> game \<Rightarrow> game" where
  "setText ident n s =
     (case elements s ident of
        None \<Rightarrow> s
      | Some e \<Rightarrow> s\<lparr>elements := (elements s)(ident := Some (e\<lparr>textContent := Some n\<rparr>))\<rparr>)"

definition setDisplay :: "string \<Rightarrow> string \<Rightarrow> game \<Rightarrow> game" where
  "setDisplay ident d s =
     (case elements s ident of
        None \<Rightarrow> s
      | Some e \<Rightarrow> s\<lparr>elements := (elements s)(ident := Some (e\<lparr>display := d\<rparr>))\<rparr>)"

definition updateScoreDisplay :: "game \<Rightarrow> game" where
  "updateScoreDisplay s =
     (let s1 = setText ''scoreDisplay'' (score s) s;
          s2 = setText ''highScoreDisplay'' (highScore s1) s1
      in setText ''levelDisplay'' (level s2) s2)"

subsection \<open>Particles\<close>

definition createBoostParticles :: "host \<Rightarrow> game \<Rightarrow> game" where
  "createBoostParticles H s =
     s\<lparr>particles := particles s @
          map (\<lambda>i. \<lparr>p_x = r_x (rocket s),
                    p_y = r_y (rocket s) + r_height (rocket s) / 2,
                    vx = - random H (rng s + 3 * i) * 3 - 1,
                    vy = random H (rng s + 3 * i + 1) * 4 - 2,
                    p_size = random H (rng s + 3 * i + 2) * 4 + 2,
                    p_color = Hex ''#ffd93d'',
                    life = 30\<rparr>) [0..<5],
       rng := rng s + 15\<rparr>"

definition explosionParticle :: "host \<Rightarrow> nat \<Rightarrow> real \<Rightarrow> real \<Rightarrow> colour \<Rightarrow> nat \<Rightarrow> particle" where
  "explosionParticle H k x y c i =
     (let angle = (Math_PI H * 2 * real i) / 15
      in \<lparr>p_x = x, p_y = y,
          vx = Math_cos H angle * (random H (k + 3 * i) * 4 + 2),
          vy = Math_sin H angle * (random H (k + 3 * i + 1) * 4 + 2),
          p_size = random H (k + 3 * i + 2) * 6 + 3,
          p_color = c,
          life = 40\<rparr>)"

definition createExplosion :: "host \<Rightarrow> real \<Rightarrow> real \<Rightarrow> colour \<Rightarrow> game \<Rightarrow> game" where
  "createExplosion H x y c s =
     s\<lparr>particles := particles s @ map (explosionParticle H (rng s) x y c) [0..<15],
       rng := rng s + 45\<rparr>"

definition updateParticles :: "game \<Rightarrow> game" where
  "updateParticles s =
     s\<lparr>particles :=
         filter (\<lambda>p. \<not> life p \<le> 0)
           (map (\<lambda>p. p\<lparr>p_x := p_x p + vx p, p_y := p_y p + vy p, life := life p - 1\<rparr>)
              (particles s))\<rparr>"

definition confettiParticle :: "host \<Rightarrow> nat \<Rightarrow> real \<Rightarrow> nat \<Rightarrow> particle" where
  "confettiParticle H k w i =
     \<lparr>p_x = random H (k + 6 * i) * w, p_y = - 20,
      vx = random H (k + 6 * i + 1) * 4 - 2,
      vy = random H (k + 6 * i + 2) * 4 + 2,
      p_size = random H (k + 6 * i + 3) * 8 + 4,
      p_color = Hsl (random H (k + 6 * i + 4) * 360),
      life = random H (k + 6 * i + 5) * 60 + 60\<rparr>"

definition createConfetti :: "host \<Rightarrow> game \<Rightarrow> game" where
  "createConfetti H s =
     s\<lparr>confettiParticles := confettiParticles s @
          map (confettiParticle H (rng s) (canvasWidth s)) [0..<120],
       rng := rng s + 720\<rparr>"

definition updateConfetti :: "game \<Rightarrow> game" where
  "updateConfetti s =
     s\<lparr>confettiParticles :=
         filter (\<lambda>c. \<not> (life c \<le> 0 \<or> p_y c > canvasHeight s + 20))
           (map (\<lambda>c. c\<lparr>p_x := p_x c + vx c, p_y := p_y c + vy c,
                       vy := vy c + 1 / 20, life := life c - 1\<rparr>)
              (confettiParticles s))\<rparr>"

subsection \<open>Lifecycle\<close>

definition resetGame :: "game \<Rightarrow> game" where
  "resetGame s =
     s\<lparr>gameRunning := False, score := 0, level := 1, frameCount := 0,
       obstacles := [], stars := [], powerUps := [], particles := [],
       confettiParticles := [],
       rocket := (rocket s)\<lparr>r_y := canvasHeight s / 2, velocity := 0,
                             hasShield := False, shieldTime := 0\<rparr>\<rparr>"

text \<open>
  \<open>endGame\<close> ends with the first run of its \<open>confettiLoop\<close>, which updates the confetti
  once at once; the later runs of that loop are callbacks of their own (\<open>confettiFrame\<close>).
\<close>

definition endGame :: "host \<Rightarrow> game \<Rightarrow> game" where
  "endGame H s =
     (let s1 = createConfetti H (s\<lparr>gameRunning := False\<rparr>);
          s2 = (if score s1 > highScore s1
                then s1\<lparr>highScore := score s1, storage := Some (score s1)\<rparr>
                else s1);
          s3 = setDisplay ''gameOverScreen'' ''block'' s2;
          s4 = setText ''finalScore'' (score s3) s3;
          s5 = setText ''finalHighScore'' (highScore s4) s4;
          s6 = updateScoreDisplay s5
      in updateConfetti s6)"

definition confettiFrame :: "game \<Rightarrow> game" where
  "confettiFrame s = updateConfetti s"

definition stopGame :: "game \<Rightarrow> game" where
  "stopGame s = s\<lparr>gameRunning := False, animationId := None\<rparr>"

definition requestAnimationFrame :: "game \<Rightarrow> game" where
  "requestAnimationFrame s = s\<lparr>animationId := Some (Suc (rafSeq s)), rafSeq := Suc (rafSeq s)\<rparr>"

subsection \<open>The rocket\<close>

definition updateRocket :: "host \<Rightarrow> game \<Rightarrow> game" where
  "updateRocket H s =
     (let r0 = rocket s;
          r1 = r0\<lparr>velocity := velocity r0 + gravity r0\<rparr>;
          r2 = r1\<lparr>r_y := r_y r1 + velocity r1\<rparr>;
          r3 = r2\<lparr>rotation := velocity r2 * (1 / 20)\<rparr>;
          r4 = (if hasShield r3
                then (let r = r3\<lparr>shieldTime := shieldTime r3 - 1\<rparr>
                      in if shieldTime r \<le> 0 then r\<lparr>hasShield := False\<rparr> else r)
                else r3);
          s1 = s\<lparr>rocket := r4\<rparr>
      in if r_y r4 + r_height r4 > canvasHeight s1 \<or> r_y r4 < 0
         then (if \<not> hasShield r4
               then endGame H s1
               else s1\<lparr>rocket := r4\<lparr>r_y := max 0 (min (canvasHeight s1 - r_height r4) (r_y r4)),
                                     velocity := 0\<rparr>\<rparr>)
         else s1)"

subsection \<open>Obstacles\<close>

definition createObstacle :: "host \<Rightarrow> game \<Rightarrow> game" where
  "createObstacle H s =
     (let minHeight = 80;
          maxHeight = canvasHeight s - obstacleGap - minHeight;
          top = random H (rng s) * maxHeight + minHeight
      in s\<lparr>obstacles := obstacles s @
              [\<lparr>o_x = canvasWidth s, topHeight = top, bottomY = top + obstacleGap,
                o_width = 80, passed = False\<rparr>],
           rng := rng s + 1\<rparr>)"

definition checkCollision :: "rocket \<Rightarrow> obstacle \<Rightarrow> bool" where
  "checkCollision r ob \<longleftrightarrow>
     r_x r < o_x ob + o_width ob \<and>
     r_x r + r_width r > o_x ob \<and>
     (r_y r < topHeight ob \<or> r_y r + r_height r > bottomY ob)"

definition scrollSpeed :: "game \<Rightarrow> real" where
  "scrollSpeed s = obstacleSpeed + real_of_int (level s) * (1 / 2)"

text \<open>
  One round of the loop of \<open>updateObstacles\<close>: the obstacle as it is left in the array, or
  \<open>None\<close> when it is spliced out, and the game state after the round.
\<close>

definition obstacleRound :: "host \<Rightarrow> obstacle \<Rightarrow> game \<Rightarrow> obstacle option \<times> game" where
  "obstacleRound H ob s =
     (let ob1 = ob\<lparr>o_x := o_x ob - scrollSpeed s\<rparr>;
          s1 = (if checkCollision (rocket s) ob1
                then (if hasShield (rocket s)
                      then createExplosion H (r_x (rocket s)) (r_y (rocket s)) (Hex ''#4ecdc4'')
                             (s\<lparr>rocket := (rocket s)\<lparr>hasShield := False, shieldTime := 0\<rparr>\<rparr>)
                      else endGame H s)
                else s);
          award = (\<not> passed ob1 \<and> o_x ob1 + o_width ob1 < r_x (rocket s1));
          ob2 = (if award then ob1\<lparr>passed := True\<rparr> else ob1);
          s2 = (if award then s1\<lparr>score := score s1 + 50\<rparr> else s1)
      in (if o_x ob2 + o_width ob2 < 0 then None else Some ob2, s2))"

text \<open>
  The loop runs from the last index down to the first, so the tail of the list is
  processed before its head; splicing the current index leaves the others in place.
\<close>

fun obstaclesLoop :: "host \<Rightarrow> obstacle list \<Rightarrow> game \<Rightarrow> obstacle list \<times> game" where
  "obstaclesLoop H [] s = ([], s)"
| "obstaclesLoop H (ob # obs) s =
     (case obstaclesLoop H obs s of
        (obs', s1) \<Rightarrow>
          (case obstacleRound H ob s1 of
             (None, s2) \<Rightarrow> (obs', s2)
           | (Some ob', s2) \<Rightarrow> (ob' # obs', s2)))"

definition updateObstacles :: "host \<Rightarrow> game \<Rightarrow> game" where
  "updateObstacles H s =
     (case obstaclesLoop H (obstacles s) s of (obs', s') \<Rightarrow> s'\<lparr>obstacles := obs'\<rparr>)"

subsection \<open>Stars\<close>

definition createStar :: "host \<Rightarrow> game \<Rightarrow> game" where
  "createStar H s =
     s\<lparr>stars := stars s @
          [\<lparr>st_x = canvasWidth s, st_y = random H (rng s) * (canvasHeight s - 60) + 30,
            st_size = 15, st_collected = False\<rparr>],
       rng := rng s + 1\<rparr>"

definition starRound :: "host \<Rightarrow> star \<Rightarrow> game \<Rightarrow> star option \<times> game" where
  "starRound H st s =
     (let st1 = st\<lparr>st_x := st_x st - scrollSpeed s\<rparr>;
          collect = (\<not> st_collected st1 \<and>
                     hypot (r_x (rocket s) + r_width (rocket s) / 2 - st_x st1)
                           (r_y (rocket s) + r_height (rocket s) / 2 - st_y st1)
                       < st_size st1 + r_width (rocket s) / 2);
          st2 = (if collect then st1\<lparr>st_collected := True\<rparr> else st1);
          s1 = (if collect
                then createExplosion H (st_x st2) (st_y st2) (Hex ''#ffd700'')
                       (s\<lparr>score := score s + 100\<rparr>)
                else s)
      in (if st_x st2 < - st_size st2 then None else Some st2, s1))"

fun starsLoop :: "host \<Rightarrow> star list \<Rightarrow> game \<Rightarrow> star list \<times> game" where
  "starsLoop H [] s = ([], s)"
| "starsLoop H (st # sts) s =
     (case starsLoop H sts s of
        (sts', s1) \<Rightarrow>
          (case starRound H st s1 of
             (None, s2) \<Rightarrow> (sts', s2)
           | (Some st', s2) \<Rightarrow> (st' # sts', s2)))"

definition updateStars :: "host \<Rightarrow> game \<Rightarrow> game" where
  "updateStars H s =
     (case starsLoop H (stars s) s of (sts', s') \<Rightarrow> s'\<lparr>stars := sts'\<rparr>)"

subsection \<open>Power-ups\<close>

definition createPowerUp :: "host \<Rightarrow> game \<Rightarrow> game" where
  "createPowerUp H s =
     s\<lparr>powerUps := powerUps s @
          [\<lparr>pu_x = canvasWidth s, pu_y = random H (rng s) * (canvasHeight s - 60) + 30,
            pu_size = 20, pu_collected = False, pu_type = ''shield''\<rparr>],
       rng := rng s + 1\<rparr>"

definition powerUpRound :: "host \<Rightarrow> powerUp \<Rightarrow> game \<Rightarrow> powerUp option \<times> game" where
  "powerUpRound H pu s =
     (let pu1 = pu\<lparr>pu_x := pu_x pu - scrollSpeed s\<rparr>;
          collect = (\<not> pu_collected pu1 \<and>
                     hypot (r_x (rocket s) + r_width (rocket s) / 2 - pu_x pu1)
                           (r_y (rocket s) + r_height (rocket s) / 2 - pu_y pu1)
                       < pu_size pu1 + r_width (rocket s) / 2);
          pu2 = (if collect then pu1\<lparr>pu_collected := True\<rparr> else pu1);
          s1 = (if collect
                then createExplosion H (pu_x pu2) (pu_y pu2) (Hex ''#4ecdc4'')
                       (s\<lparr>rocket := (rocket s)\<lparr>hasShield := True, shieldTime := 300\<rparr>\<rparr>)
                else s)
      in (if pu_x pu2 < - pu_size pu2 then None else Some pu2, s1))"

fun powerUpsLoop :: "host \<Rightarrow> powerUp list \<Rightarrow> game \<Rightarrow> powerUp list \<times> game" where
  "powerUpsLoop H [] s = ([], s)"
| "powerUpsLoop H (pu # pus) s =
     (case powerUpsLoop H pus s of
        (pus', s1) \<Rightarrow>
          (case powerUpRound H pu s1 of
             (None, s2) \<Rightarrow> (pus', s2)
           | (Some pu', s2) \<Rightarrow> (pu' # pus', s2)))"

definition updatePowerUps :: "host \<Rightarrow> game \<Rightarrow> game" where
  "updatePowerUps H s =
     (case powerUpsLoop H (powerUps s) s of (pus', s') \<Rightarrow> s'\<lparr>powerUps := pus'\<rparr>)"

subsection \<open>The frame loop\<close>

definition levelOf :: "int \<Rightarrow> int" where
  "levelOf sc = sc div 500 + 1"

definition spawnPeriod :: "int \<Rightarrow> int" where
  "spawnPeriod lvl = obstacleFrequency - lvl * 5"

definition onCadence :: "int \<Rightarrow> int \<Rightarrow> bool" where
  "onCadence f p \<longleftrightarrow> js_rem f p = Some 0"

text \<open>
  The first half of a frame: the frame counter, the level, the rocket and the three
  spawners. \<open>advance\<close> is the second half: the five update loops, the point of the frame,
  the display and the request for the next frame.
\<close>

definition spawn :: "host \<Rightarrow> game \<Rightarrow> game" where
  "spawn H s =
     (let s1 = s\<lparr>frameCount := frameCount s + 1\<rparr>;
          s2 = s1\<lparr>level := levelOf (score s1)\<rparr>;
          s3 = updateRocket H s2;
          s4 = (if onCadence (frameCount s3) (spawnPeriod (level s3))
                then createObstacle H s3 else s3);
          s5 = (if onCadence (frameCount s4) 80 then createStar H s4 else s4)
      in if onCadence (frameCount s5) 300 then createPowerUp H s5 else s5)"

definition advance :: "host \<Rightarrow> game \<Rightarrow> game" where
  "advance H s =
     (let s1 = updateObstacles H s;
          s2 = updateStars H s1;
          s3 = updatePowerUps H s2;
          s4 = updateParticles s3;
          s5 = updateConfetti s4;
          s6 = s5\<lparr>score := score s5 + 1\<rparr>;
          s7 = updateScoreDisplay s6
      in requestAnimationFrame s7)"

text \<open>\<open>hidden\<close> is the value of \<open>document.hidden\<close> when the frame begins.\<close>

definition gameLoop :: "host \<Rightarrow> bool \<Rightarrow> game \<Rightarrow> game" where
  "gameLoop H hidden s =
     (if \<not> gameRunning s \<or> hidden then s else advance H (spawn H s))"

text \<open>
  \<open>startGame\<close> resets, sets the flag and runs the first frame itself (cancelling the
  pending frame changes the queue of the browser, not the game). \<open>handleInput\<close> is the
  handler of a click, a touch and the space bar.
\<close>

definition startGame :: "host \<Rightarrow> bool \<Rightarrow> game \<Rightarrow> game" where
  "startGame H hidden s =
     (let s1 = (resetGame s)\<lparr>gameRunning := True\<rparr>;
          s2 = setDisplay ''gameOverScreen'' ''none'' s1
      in gameLoop H hidden s2)"

definition handleInput :: "host \<Rightarrow> bool \<Rightarrow> game \<Rightarrow> game" where
  "handleInput H hidden s =
     (if \<not> gameRunning s then startGame H hidden s
      else createBoostParticles H (s\<lparr>rocket := (rocket s)\<lparr>velocity := boost (rocket s)\<rparr>\<rparr>))"

text \<open>
  The state \<open>initGame\<close> leaves behind when the container has no canvas yet: the options
  give the size of the new canvas (\<open>None\<close> and 0 fall back to 800 by 600), the high score
  is read from the storage (\<open>getItem(...) || 0\<close>), the game is reset and the display
  updated.
\<close>

definition orElse :: "real option \<Rightarrow> real \<Rightarrow> real" where
  "orElse v d = (case v of None \<Rightarrow> d | Some w \<Rightarrow> if w = 0 then d else w)"

definition loadHighScore :: "int option \<Rightarrow> int" where
  "loadHighScore st = (case st of None \<Rightarrow> 0 | Some v \<Rightarrow> v)"

definition initGame ::
  "real option \<Rightarrow> real option \<Rightarrow> int option \<Rightarrow> (string \<Rightarrow> element option) \<Rightarrow> game" where
  "initGame w h st d =
     (let s0 = \<lparr>gameRunning = False, score = 0, highScore = loadHighScore st, level = 1,
                frameCount = 0, animationId = None,
                rocket = initialRocket\<lparr>r_y := orElse h 600 / 2\<rparr>,
                obstacles = [], stars = [], powerUps = [], particles = [],
                confettiParticles = [],
                canvasWidth = orElse w 800, canvasHeight = orElse h 600,
                storage = st, elements = d, rng = 0, rafSeq = 0\<rparr>
      in updateScoreDisplay (resetGame s0))"

text \<open>
  What happens to a running game: the browser runs a frame (with the value of
  \<open>document.hidden\<close> at that time), or the player presses. A press while no game is
  running calls \<open>startGame\<close> and so begins the next session; a session leaves it out.
\<close>

datatype event = Frame bool | Press

fun happen :: "host \<Rightarrow> event \<Rightarrow> game \<Rightarrow> game" where
  "happen H (Frame h) s = gameLoop H h s"
| "happen H Press s = (if gameRunning s then handleInput H False s else s)"

fun session :: "host \<Rightarrow> event list \<Rightarrow> game \<Rightarrow> game" where
  "session H [] s = s"
| "session H (e # es) s = session H es (happen H e s)"

section \<open>Notions for the statements\<close>

subsection \<open>The parts of a frame\<close>

text \<open>
  \<open>fallen r\<close> is the rocket after gravity, the move, the rotation and the shield timer, just
  before \<open>updateRocket\<close> checks the boundaries; \<open>outOfBounds\<close> is that check.
\<close>

definition fallen :: "rocket \<Rightarrow> rocket" where
  "fallen r =
     (let r1 = r\<lparr>velocity := velocity r + gravity r\<rparr>;
          r2 = r1\<lparr>r_y := r_y r1 + velocity r1\<rparr>;
          r3 = r2\<lparr>rotation := velocity r2 * (1 / 20)\<rparr>
      in if hasShield r3
         then (let r4 = r3\<lparr>shieldTime := shieldTime r3 - 1\<rparr>
               in if shieldTime r4 \<le> 0 then r4\<lparr>hasShield := False\<rparr> else r4)
         else r3)"

definition outOfBounds :: "game \<Rightarrow> rocket \<Rightarrow> bool" where
  "outOfBounds s r \<longleftrightarrow> r_y r + r_height r > canvasHeight s \<or> r_y r < 0"

text \<open>
  \<open>spawn\<close> is the frame counter and the level (\<open>levelled\<close>), then \<open>updateRocket\<close>, then the
  three spawners. \<open>base\<close> is the state a frame is measured against: the level is set and
  the rocket has moved, nothing else has happened. \<open>loops\<close> is the five update loops of
  \<open>advance\<close>, before the point of the frame is added.
\<close>

definition levelled :: "game \<Rightarrow> game" where
  "levelled s = s\<lparr>frameCount := frameCount s + 1, level := levelOf (score s)\<rparr>"

definition spawners :: "host \<Rightarrow> game \<Rightarrow> game" where
  "spawners H s =
     (let s4 = (if onCadence (frameCount s) (spawnPeriod (level s))
                then createObstacle H s else s);
          s5 = (if onCadence (frameCount s4) 80 then createStar H s4 else s4)
      in if onCadence (frameCount s5) 300 then createPowerUp H s5 else s5)"

definition base :: "host \<Rightarrow> game \<Rightarrow> game" where
  "base H s = (levelled s)\<lparr>rocket := rocket (spawn H s)\<rparr>"

definition loops :: "host \<Rightarrow> game \<Rightarrow> game" where
  "loops H s = updateConfetti (updateParticles (updatePowerUps H (updateStars H (updateObstacles H s))))"

subsection \<open>What the loops find\<close>

text \<open>
  The tests the three loops make on an entry of their list, read on the entry as it is in
  the list and on the state the frame has reached before the loops: the entry is moved by
  \<open>scrollSpeed\<close> first, and compared with the rocket then.
\<close>

definition obstacleHitNow :: "game \<Rightarrow> obstacle \<Rightarrow> bool" where
  "obstacleHitNow s ob \<longleftrightarrow> checkCollision (rocket s) (ob\<lparr>o_x := o_x ob - scrollSpeed s\<rparr>)"

definition obstaclePassedNow :: "game \<Rightarrow> obstacle \<Rightarrow> bool" where
  "obstaclePassedNow s ob \<longleftrightarrow>
     \<not> passed ob \<and> o_x ob - scrollSpeed s + o_width ob < r_x (rocket s)"

definition starCollectedNow :: "game \<Rightarrow> star \<Rightarrow> bool" where
  "starCollectedNow s st \<longleftrightarrow>
     \<not> st_collected st \<and>
     hypot (r_x (rocket s) + r_width (rocket s) / 2 - (st_x st - scrollSpeed s))
           (r_y (rocket s) + r_height (rocket s) / 2 - st_y st)
       < st_size st + r_width (rocket s) / 2"

definition powerUpCollectedNow :: "game \<Rightarrow> powerUp \<Rightarrow> bool" where
  "powerUpCollectedNow s pu \<longleftrightarrow>
     \<not> pu_collected pu \<and>
     hypot (r_x (rocket s) + r_width (rocket s) / 2 - (pu_x pu - scrollSpeed s))
           (r_y (rocket s) + r_height (rocket s) / 2 - pu_y pu)
       < pu_size pu + r_width (rocket s) / 2"

text \<open>The number of entries of a list that pass a test.\<close>

definition count :: "('a \<Rightarrow> bool) \<Rightarrow> 'a list \<Rightarrow> int" where
  "count P xs = int (length (filter P xs))"

text \<open>
  What a loop leaves of an entry: \<open>None\<close> when the entry is spliced out, else the entry
  moved and flagged.
\<close>

definition obstacleLeft :: "game \<Rightarrow> obstacle \<Rightarrow> obstacle option" where
  "obstacleLeft s ob =
     (if o_x ob - scrollSpeed s + o_width ob < 0 then None
      else Some (ob\<lparr>o_x := o_x ob - scrollSpeed s,
                     passed := passed ob \<or> obstaclePassedNow s ob\<rparr>))"

definition starLeft :: "game \<Rightarrow> star \<Rightarrow> star option" where
  "starLeft s st =
     (if st_x st - scrollSpeed s < - st_size st then None
      else Some (st\<lparr>st_x := st_x st - scrollSpeed s,
                     st_collected := st_collected st \<or> starCollectedNow s st\<rparr>))"

definition powerUpLeft :: "game \<Rightarrow> powerUp \<Rightarrow> powerUp option" where
  "powerUpLeft s pu =
     (if pu_x pu - scrollSpeed s < - pu_size pu then None
      else Some (pu\<lparr>pu_x := pu_x pu - scrollSpeed s,
                     pu_collected := pu_collected pu \<or> powerUpCollectedNow s pu\<rparr>))"

subsection \<open>The session\<close>

text \<open>The number the game over screen shows as the final score, when the page has that element.\<close>

definition finalText :: "game \<Rightarrow> int option" where
  "finalText s = (case elements s ''finalScore'' of None \<Rightarrow> None | Some e \<Rightarrow> textContent e)"

text \<open>
  \<open>quiet s t\<close>: going from \<open>s\<close> to \<open>t\<close> leaves the flag, the score, the high score, the level,
  the canvas, the rocket and the final score shown as they are.
\<close>

definition quiet :: "game \<Rightarrow> game \<Rightarrow> bool" where
  "quiet s t \<longleftrightarrow>
     gameRunning t = gameRunning s \<and> score t = score s \<and> highScore t = highScore s \<and>
     storage t = storage s \<and> level t = level s \<and> frameCount t = frameCount s \<and>
     canvasWidth t = canvasWidth s \<and> canvasHeight t = canvasHeight s \<and>
     rocket t = rocket s \<and> elements t ''finalScore'' = elements s ''finalScore''"

text \<open>
  Between the level update and its end, a frame changes the score, the flag, the high score
  and the shield only in four ways: it adds points, it ends the game, it sets or clears the
  shield, or it does something that leaves all of these alone.
\<close>

inductive trail :: "host \<Rightarrow> game \<Rightarrow> game \<Rightarrow> bool" for H :: host and s :: game where
  start: "trail H s s"
| still: "trail H s u \<Longrightarrow> quiet u v \<Longrightarrow> trail H s v"
| points: "trail H s u \<Longrightarrow> 0 \<le> n \<Longrightarrow> trail H s (u\<lparr>score := score u + n\<rparr>)"
| shield: "trail H s u \<Longrightarrow> trail H s (u\<lparr>rocket := (rocket u)\<lparr>hasShield := b, shieldTime := k\<rparr>\<rparr>)"
| over: "trail H s u \<Longrightarrow> trail H s (endGame H u)"

text \<open>
  \<open>settled h s\<close>: while the game runs the high score is still \<open>h\<close>; once it is over the
  screen shows a final score, no more than the score, and the high score is the larger of
  \<open>h\<close> and that final score. \<open>persisted s\<close>: the storage holds the high score.
\<close>

definition settled :: "int \<Rightarrow> game \<Rightarrow> bool" where
  "settled h s \<longleftrightarrow>
     (if gameRunning s then highScore s = h
      else case finalText s of
             None \<Rightarrow> False
           | Some v \<Rightarrow> v \<le> score s \<and> highScore s = max h v)"

definition persisted :: "game \<Rightarrow> bool" where
  "persisted s \<longleftrightarrow> loadHighScore (storage s) = highScore s"

text \<open>
  A frame of a running game in which nothing happens to the rocket: it stays inside the
  canvas, overlaps no obstacle, passes none and collects no star. \<open>calm H n s\<close>: the next
  \<open>n\<close> frames from \<open>s\<close> are of that kind.
\<close>

definition uneventful :: "host \<Rightarrow> game \<Rightarrow> bool" where
  "uneventful H s \<longleftrightarrow>
     \<not> outOfBounds s (fallen (rocket s)) \<and>
     count (obstacleHitNow (spawn H s)) (obstacles (spawn H s)) = 0 \<and>
     count (obstaclePassedNow (spawn H s)) (obstacles (spawn H s)) = 0 \<and>
     count (starCollectedNow (spawn H s)) (stars (spawn H s)) = 0"

fun calm :: "host \<Rightarrow> nat \<Rightarrow> game \<Rightarrow> bool" where
  "calm H 0 s = True"
| "calm H (Suc n) s = (uneventful H s \<and> calm H n (gameLoop H False s))"

subsection \<open>Games to try the statements on\<close>

text \<open>A host, a game late in a session, and a page with the elements the game writes to.\<close>

definition plainHost :: host where
  "plainHost = \<lparr>random = (\<lambda>_. 1 / 2), Math_cos = (\<lambda>_. 1), Math_sin = (\<lambda>_. 0), Math_PI = 3\<rparr>"

definition lateGame :: game where
  "lateGame = (initGame None None None (\<lambda>_. None))\<lparr>gameRunning := True, score := 13500\<rparr>"

definition page :: "string \<Rightarrow> element option" where
  "page ident =
     (if ident \<in> set [''scoreDisplay'', ''highScoreDisplay'', ''levelDisplay'',
                       ''gameOverScreen'', ''finalScore'', ''finalHighScore'']
      then Some \<lparr>textContent = None, display = ''''\<rparr> else None)"

text \<open>
  A game in its third level on the default canvas: an obstacle about to be passed, a star and
  a power-up about to be collected.
\<close>

definition nearObstacle :: obstacle where
  "nearObstacle = \<lparr>o_x = 20, topHeight = 200, bottomY = 450, o_width = 80, passed = False\<rparr>"

definition nearStar :: star where
  "nearStar = \<lparr>st_x = 124, st_y = 320, st_size = 15, st_collected = False\<rparr>"

definition nearPowerUp :: powerUp where
  "nearPowerUp = \<lparr>pu_x = 124, pu_y = 320, pu_size = 20, pu_collected = False,
                    pu_type = ''shield''\<rparr>"

definition midGame :: game where
  "midGame =
     \<lparr>gameRunning = True, score = 1000, highScore = 0, level = 3, frameCount = 2000,
      animationId = Some 2000,
      rocket = initialRocket\<lparr>r_y := 300\<rparr>,
      obstacles = [nearObstacle], stars = [nearStar], powerUps = [nearPowerUp],
      particles = [], confettiParticles = [],
      canvasWidth = 800, canvasHeight = 600,
      storage = None, elements = page, rng = 0, rafSeq = 2000\<rparr>"

text \<open>The same game with the rocket about to fall through the floor.\<close>

definition lowGame :: game where
  "lowGame = midGame\<lparr>rocket := initialRocket\<lparr>r_y := 558, velocity := 5\<rparr>\<rparr>"

text \<open>The same with a shield, and an obstacle in the way of the rocket.\<close>

definition wall :: obstacle where
  "wall = \<lparr>o_x = 110, topHeight = 400, bottomY = 650, o_width = 80, passed = False\<rparr>"

definition shieldedGame :: game where
  "shieldedGame =
     midGame\<lparr>rocket := initialRocket\<lparr>r_y := 300, hasShield := True, shieldTime := 100\<rparr>,
             obstacles := [wall]\<rparr>"


definition shieldedLowGame :: game where
  "shieldedLowGame =
     midGame\<lparr>rocket := initialRocket\<lparr>r_y := 558, velocity := 5, hasShield := True,
                                      shieldTime := 100\<rparr>\<rparr>"

text \<open>A collected power-up, still on the screen.\<close>

definition spentPowerUp :: powerUp where
  "spentPowerUp = nearPowerUp\<lparr>pu_collected := True\<rparr>"

text \<open>
  A page with nothing stored and a canvas so low that the rocket reaches the floor in its
  second frame; the game after \<open>startGame\<close>, which runs the first frame; and the game after
  one more frame.
\<close>

definition tinyPage :: game where
  "tinyPage = initGame (Some 800) (Some 81) None page"

definition tinyStart :: game where
  "tinyStart = startGame plainHost False tinyPage"

definition tinyOver :: game where
  "tinyOver = session plainHost [Frame False] (startGame plainHost False tinyPage)"

text \<open>The falling rocket of \<open>lowGame\<close> with no obstacle on the canvas.\<close>

definition lowQuiet :: game where
  "lowQuiet = lowGame\<lparr>obstacles := []\<rparr>"

text \<open>
  A canvas so high and so wide that the rocket falls for more than 500 frames before it
  reaches the floor, and nothing that is spawned on the right comes near it in that time.
  \<open>tallStart\<close> is the game just started on it, before its first frame. \<open>freeFall k\<close>
  describes the game \<open>k\<close> frames later.
\<close>

definition tallPage :: game where
  "tallPage = initGame (Some 4000) (Some 200000) None page"

definition tallStart :: game where
  "tallStart = startGame plainHost True tallPage"

definition freeFall :: "nat \<Rightarrow> game \<Rightarrow> bool" where
  "freeFall k u \<longleftrightarrow>
     gameRunning u \<and> score u = int k \<and> frameCount u = int k \<and>
     canvasWidth u = 4000 \<and> canvasHeight u = 200000 \<and>
     r_x (rocket u) = 100 \<and> r_width (rocket u) = 40 \<and> r_height (rocket u) = 40 \<and>
     gravity (rocket u) = 1 / 2 \<and> \<not> hasShield (rocket u) \<and>
     velocity (rocket u) = real k / 2 \<and>
     r_y (rocket u) = 100000 + real (k * (k + 1)) / 4 \<and>
     (\<forall>ob \<in> set (obstacles u). o_width ob = 80 \<and> 4000 - 7 / 2 * real k \<le> o_x ob) \<and>
     (\<forall>st \<in> set (stars u). st_size st = 15 \<and> 4000 - 7 / 2 * real k \<le> st_x st) \<and>
     (\<forall>pu \<in> set (powerUps u). pu_size pu = 20 \<and> 4000 - 7 / 2 * real k \<le> pu_x pu)"

section \<open>Properties\<close>

subsection \<open>Host arithmetic\<close>

text \<open>The game only compares a distance with a radius, which needs no square root.\<close>

lemma hypot_less_iff [code_unfold]: "hypot a b < r \<longleftrightarrow> 0 < r \<and> a\<^sup>2 + b\<^sup>2 < r\<^sup>2"
proof (cases "0 < r")
  case True
  then have "sqrt (a\<^sup>2 + b\<^sup>2) < r \<longleftrightarrow> sqrt (a\<^sup>2 + b\<^sup>2) < sqrt (r\<^sup>2)"
    by simp
  also have "\<dots> \<longleftrightarrow> a\<^sup>2 + b\<^sup>2 < r\<^sup>2"
    by (rule real_sqrt_less_iff)
  finally show ?thesis
    using True by (simp add: hypot_def)
next
  case False
  have "0 \<le> sqrt (a\<^sup>2 + b\<^sup>2)"
    by simp
  with False have "r \<le> sqrt (a\<^sup>2 + b\<^sup>2)"
    by linarith
  with False show ?thesis
    by (simp add: hypot_def not_less)
qed

subsection \<open>Steps that leave the session alone\<close>

lemma quiet_refl: "quiet s s"
  by (simp add: quiet_def)

lemma quiet_trans: "quiet s t \<Longrightarrow> quiet t u \<Longrightarrow> quiet s u"
  by (simp add: quiet_def)

lemma quiet_setText: "ident \<noteq> ''finalScore'' \<Longrightarrow> quiet s (setText ident n s)"
  by (simp add: quiet_def setText_def split: option.splits)

lemma quiet_setDisplay: "ident \<noteq> ''finalScore'' \<Longrightarrow> quiet s (setDisplay ident d s)"
  by (simp add: quiet_def setDisplay_def split: option.splits)

lemma quiet_updateScoreDisplay: "quiet s (updateScoreDisplay s)"
proof -
  let ?s1 = "setText ''scoreDisplay'' (score s) s"
  let ?s2 = "setText ''highScoreDisplay'' (highScore ?s1) ?s1"
  have "quiet s ?s1" by (rule quiet_setText) simp
  moreover have "quiet ?s1 ?s2" by (rule quiet_setText) simp
  ultimately have "quiet s ?s2" by (rule quiet_trans)
  moreover have "quiet ?s2 (setText ''levelDisplay'' (level ?s2) ?s2)" by (rule quiet_setText) simp
  ultimately have "quiet s (setText ''levelDisplay'' (level ?s2) ?s2)" by (rule quiet_trans)
  then show ?thesis
    by (simp add: updateScoreDisplay_def Let_def)
qed

lemma quiet_createExplosion: "quiet s (createExplosion H x y c s)"
  by (simp add: quiet_def createExplosion_def)

lemma quiet_createConfetti: "quiet s (createConfetti H s)"
  by (simp add: quiet_def createConfetti_def)

lemma quiet_updateConfetti: "quiet s (updateConfetti s)"
  by (simp add: quiet_def updateConfetti_def)

lemma quiet_updateParticles: "quiet s (updateParticles s)"
  by (simp add: quiet_def updateParticles_def)

lemma quiet_createObstacle: "quiet s (createObstacle H s)"
  by (simp add: quiet_def createObstacle_def Let_def)

lemma quiet_createStar: "quiet s (createStar H s)"
  by (simp add: quiet_def createStar_def)

lemma quiet_createPowerUp: "quiet s (createPowerUp H s)"
  by (simp add: quiet_def createPowerUp_def)

lemma quiet_requestAnimationFrame: "quiet s (requestAnimationFrame s)"
  by (simp add: quiet_def requestAnimationFrame_def)

lemma quiet_lists:
  "quiet s (s\<lparr>obstacles := a\<rparr>)" "quiet s (s\<lparr>stars := b\<rparr>)" "quiet s (s\<lparr>powerUps := c\<rparr>)"
  by (simp_all add: quiet_def)

subsection \<open>The end of a game\<close>

lemma setText_fields [simp]:
  "gameRunning (setText i n s) = gameRunning s"
  "score (setText i n s) = score s"
  "highScore (setText i n s) = highScore s"
  "storage (setText i n s) = storage s"
  "level (setText i n s) = level s"
  "frameCount (setText i n s) = frameCount s"
  "canvasWidth (setText i n s) = canvasWidth s"
  "canvasHeight (setText i n s) = canvasHeight s"
  "rocket (setText i n s) = rocket s"
  "obstacles (setText i n s) = obstacles s"
  "stars (setText i n s) = stars s"
  "powerUps (setText i n s) = powerUps s"
  "particles (setText i n s) = particles s"
  "confettiParticles (setText i n s) = confettiParticles s"
  "rng (setText i n s) = rng s"
  by (simp_all add: setText_def split: option.splits)

lemma setDisplay_fields [simp]:
  "gameRunning (setDisplay i d s) = gameRunning s"
  "score (setDisplay i d s) = score s"
  "highScore (setDisplay i d s) = highScore s"
  "storage (setDisplay i d s) = storage s"
  "level (setDisplay i d s) = level s"
  "frameCount (setDisplay i d s) = frameCount s"
  "canvasWidth (setDisplay i d s) = canvasWidth s"
  "canvasHeight (setDisplay i d s) = canvasHeight s"
  "rocket (setDisplay i d s) = rocket s"
  "obstacles (setDisplay i d s) = obstacles s"
  "stars (setDisplay i d s) = stars s"
  "powerUps (setDisplay i d s) = powerUps s"
  "particles (setDisplay i d s) = particles s"
  "confettiParticles (setDisplay i d s) = confettiParticles s"
  "rng (setDisplay i d s) = rng s"
  by (simp_all add: setDisplay_def split: option.splits)

lemma updateScoreDisplay_fields [simp]:
  "gameRunning (updateScoreDisplay s) = gameRunning s"
  "score (updateScoreDisplay s) = score s"
  "highScore (updateScoreDisplay s) = highScore s"
  "storage (updateScoreDisplay s) = storage s"
  "level (updateScoreDisplay s) = level s"
  "frameCount (updateScoreDisplay s) = frameCount s"
  "canvasWidth (updateScoreDisplay s) = canvasWidth s"
  "canvasHeight (updateScoreDisplay s) = canvasHeight s"
  "rocket (updateScoreDisplay s) = rocket s"
  "obstacles (updateScoreDisplay s) = obstacles s"
  "stars (updateScoreDisplay s) = stars s"
  "powerUps (updateScoreDisplay s) = powerUps s"
  "particles (updateScoreDisplay s) = particles s"
  "confettiParticles (updateScoreDisplay s) = confettiParticles s"
  "rng (updateScoreDisplay s) = rng s"
  by (simp_all add: updateScoreDisplay_def Let_def)

lemma finalText_setText:
  "finalText (setText i n s) =
     (if i = ''finalScore'' \<and> elements s ''finalScore'' \<noteq> None then Some n else finalText s)"
  by (auto simp add: finalText_def setText_def split: option.splits)

lemma finalText_setDisplay: "finalText (setDisplay i d s) = finalText s"
  by (auto simp add: finalText_def setDisplay_def split: option.splits)

lemma finalText_updateScoreDisplay: "finalText (updateScoreDisplay s) = finalText s"
  by (simp add: updateScoreDisplay_def Let_def finalText_setText)

lemma endGame_fields:
  "gameRunning (endGame H s) = False"
  "score (endGame H s) = score s"
  "highScore (endGame H s) = max (highScore s) (score s)"
  "storage (endGame H s) = (if score s > highScore s then Some (score s) else storage s)"
  "level (endGame H s) = level s"
  "frameCount (endGame H s) = frameCount s"
  "canvasWidth (endGame H s) = canvasWidth s"
  "canvasHeight (endGame H s) = canvasHeight s"
  "rocket (endGame H s) = rocket s"
  "obstacles (endGame H s) = obstacles s"
  "stars (endGame H s) = stars s"
  "powerUps (endGame H s) = powerUps s"
  "particles (endGame H s) = particles s"
  by (simp_all add: endGame_def Let_def createConfetti_def updateConfetti_def)

lemma dom_final_setText:
  "elements (setText i n s) ''finalScore'' =
     (if i = ''finalScore'' then map_option (\<lambda>e. e\<lparr>textContent := Some n\<rparr>) (elements s ''finalScore'')
      else elements s ''finalScore'')"
  by (simp add: setText_def split: option.splits)

lemma dom_final_setDisplay:
  "i \<noteq> ''finalScore'' \<Longrightarrow> elements (setDisplay i d s) ''finalScore'' = elements s ''finalScore''"
  by (simp add: setDisplay_def split: option.splits)

lemma dom_final_updateScoreDisplay:
  "elements (updateScoreDisplay s) ''finalScore'' = elements s ''finalScore''"
  by (simp add: updateScoreDisplay_def Let_def dom_final_setText)

lemma dom_final_endGame:
  "elements (endGame H s) ''finalScore'' =
     map_option (\<lambda>e. e\<lparr>textContent := Some (score s)\<rparr>) (elements s ''finalScore'')"
  by (simp add: endGame_def Let_def createConfetti_def updateConfetti_def
        dom_final_setText dom_final_setDisplay dom_final_updateScoreDisplay)

lemma finalText_endGame:
  "finalText (endGame H s) = (if elements s ''finalScore'' = None then None else Some (score s))"
  by (simp add: finalText_def dom_final_endGame split: option.splits)

subsection \<open>What a frame can do to the session\<close>

lemma trail_trans:
  assumes "trail H s u" and "trail H u v"
  shows "trail H s v"
  using assms(2,1) by (induction rule: trail.induct) (auto intro: trail.intros)

lemma trail_quiet: "quiet s u \<Longrightarrow> trail H s u"
  by (rule trail.still[OF trail.start])

lemma trail_frame:
  assumes "trail H s u"
  shows "level u = level s" "frameCount u = frameCount s"
    "canvasWidth u = canvasWidth s" "canvasHeight u = canvasHeight s"
    "r_x (rocket u) = r_x (rocket s)" "r_y (rocket u) = r_y (rocket s)"
    "r_width (rocket u) = r_width (rocket s)" "r_height (rocket u) = r_height (rocket s)"
    "velocity (rocket u) = velocity (rocket s)" "gravity (rocket u) = gravity (rocket s)"
  using assms by (induction rule: trail.induct) (simp_all add: quiet_def endGame_fields)

lemma trail_score: "trail H s u \<Longrightarrow> score s \<le> score u"
  by (induction rule: trail.induct) (simp_all add: quiet_def endGame_fields)

lemma trail_running: "trail H s u \<Longrightarrow> gameRunning u \<Longrightarrow> gameRunning s"
  by (induction rule: trail.induct) (simp_all add: quiet_def endGame_fields)

lemma trail_highScore_running:
  "trail H s u \<Longrightarrow> gameRunning u \<Longrightarrow>
     highScore u = highScore s \<and> storage u = storage s \<and> elements u ''finalScore'' = elements s ''finalScore''"
  by (induction rule: trail.induct) (simp_all add: quiet_def endGame_fields)

subsection \<open>The loops as trails\<close>

lemma trail_obstacleRound: "trail H s (snd (obstacleRound H ob s))"
proof -
  let ?ob1 = "ob\<lparr>o_x := o_x ob - scrollSpeed s\<rparr>"
  let ?s1 = "if checkCollision (rocket s) ?ob1
             then (if hasShield (rocket s)
                   then createExplosion H (r_x (rocket s)) (r_y (rocket s)) (Hex ''#4ecdc4'')
                          (s\<lparr>rocket := (rocket s)\<lparr>hasShield := False, shieldTime := 0\<rparr>\<rparr>)
                   else endGame H s)
             else s"
  have "trail H s (s\<lparr>rocket := (rocket s)\<lparr>hasShield := False, shieldTime := 0\<rparr>\<rparr>)"
    by (rule trail.shield[OF trail.start])
  then have "trail H s (createExplosion H x y c
      (s\<lparr>rocket := (rocket s)\<lparr>hasShield := False, shieldTime := 0\<rparr>\<rparr>))" for x y c
    by (rule trail.still) (rule quiet_createExplosion)
  then have 1: "trail H s ?s1"
    by (simp add: trail.start trail.over)
  have "trail H s (?s1\<lparr>score := score ?s1 + 50\<rparr>)"
    by (rule trail.points[OF 1]) simp
  with 1 show ?thesis
    by (simp add: obstacleRound_def Let_def)
qed

lemma trail_obstaclesLoop: "trail H s (snd (obstaclesLoop H obs s))"
proof (induction obs)
  case Nil
  show ?case by (simp add: trail.start)
next
  case (Cons ob obs)
  obtain obs' s1 where l: "obstaclesLoop H obs s = (obs', s1)"
    by (cases "obstaclesLoop H obs s")
  with Cons have "trail H s s1" by simp
  moreover have "trail H s1 (snd (obstacleRound H ob s1))"
    by (rule trail_obstacleRound)
  ultimately have "trail H s (snd (obstacleRound H ob s1))"
    by (rule trail_trans)
  with l show ?case
    by (cases "obstacleRound H ob s1") (auto split: option.splits)
qed

lemma trail_updateObstacles: "trail H s (updateObstacles H s)"
proof -
  obtain obs' s1 where l: "obstaclesLoop H (obstacles s) s = (obs', s1)"
    by (cases "obstaclesLoop H (obstacles s) s")
  have "trail H s s1"
    using trail_obstaclesLoop[of H s "obstacles s"] l by simp
  then have "trail H s (s1\<lparr>obstacles := obs'\<rparr>)"
    by (rule trail.still) (simp add: quiet_def)
  with l show ?thesis
    by (simp add: updateObstacles_def)
qed

lemma trail_starRound: "trail H s (snd (starRound H st s))"
proof -
  have "trail H s (s\<lparr>score := score s + 100\<rparr>)"
    by (rule trail.points[OF trail.start]) simp
  then have "trail H s (createExplosion H x y c (s\<lparr>score := score s + 100\<rparr>))" for x y c
    by (rule trail.still) (rule quiet_createExplosion)
  then show ?thesis
    by (simp add: starRound_def Let_def trail.start)
qed

lemma trail_starsLoop: "trail H s (snd (starsLoop H sts s))"
proof (induction sts)
  case Nil
  show ?case by (simp add: trail.start)
next
  case (Cons st sts)
  obtain sts' s1 where l: "starsLoop H sts s = (sts', s1)"
    by (cases "starsLoop H sts s")
  with Cons have "trail H s s1" by simp
  moreover have "trail H s1 (snd (starRound H st s1))"
    by (rule trail_starRound)
  ultimately have "trail H s (snd (starRound H st s1))"
    by (rule trail_trans)
  with l show ?case
    by (cases "starRound H st s1") (auto split: option.splits)
qed

lemma trail_updateStars: "trail H s (updateStars H s)"
proof -
  obtain sts' s1 where l: "starsLoop H (stars s) s = (sts', s1)"
    by (cases "starsLoop H (stars s) s")
  have "trail H s s1"
    using trail_starsLoop[of H s "stars s"] l by simp
  then have "trail H s (s1\<lparr>stars := sts'\<rparr>)"
    by (rule trail.still) (simp add: quiet_def)
  with l show ?thesis
    by (simp add: updateStars_def)
qed

lemma trail_powerUpRound: "trail H s (snd (powerUpRound H pu s))"
proof -
  have "trail H s (s\<lparr>rocket := (rocket s)\<lparr>hasShield := True, shieldTime := 300\<rparr>\<rparr>)"
    by (rule trail.shield[OF trail.start])
  then have "trail H s (createExplosion H x y c
      (s\<lparr>rocket := (rocket s)\<lparr>hasShield := True, shieldTime := 300\<rparr>\<rparr>))" for x y c
    by (rule trail.still) (rule quiet_createExplosion)
  then show ?thesis
    by (simp add: powerUpRound_def Let_def trail.start)
qed

lemma trail_powerUpsLoop: "trail H s (snd (powerUpsLoop H pus s))"
proof (induction pus)
  case Nil
  show ?case by (simp add: trail.start)
next
  case (Cons pu pus)
  obtain pus' s1 where l: "powerUpsLoop H pus s = (pus', s1)"
    by (cases "powerUpsLoop H pus s")
  with Cons have "trail H s s1" by simp
  moreover have "trail H s1 (snd (powerUpRound H pu s1))"
    by (rule trail_powerUpRound)
  ultimately have "trail H s (snd (powerUpRound H pu s1))"
    by (rule trail_trans)
  with l show ?case
    by (cases "powerUpRound H pu s1") (auto split: option.splits)
qed

lemma trail_updatePowerUps: "trail H s (updatePowerUps H s)"
proof -
  obtain pus' s1 where l: "powerUpsLoop H (powerUps s) s = (pus', s1)"
    by (cases "powerUpsLoop H (powerUps s) s")
  have "trail H s s1"
    using trail_powerUpsLoop[of H s "powerUps s"] l by simp
  then have "trail H s (s1\<lparr>powerUps := pus'\<rparr>)"
    by (rule trail.still) (simp add: quiet_def)
  with l show ?thesis
    by (simp add: updatePowerUps_def)
qed

lemma advance_loops:
  "advance H s =
     requestAnimationFrame (updateScoreDisplay ((loops H s)\<lparr>score := score (loops H s) + 1\<rparr>))"
  by (simp add: advance_def loops_def Let_def)

lemma trail_loops: "trail H s (loops H s)"
proof -
  let ?s1 = "updateObstacles H s"
  let ?s2 = "updateStars H ?s1"
  let ?s3 = "updatePowerUps H ?s2"
  let ?s4 = "updateParticles ?s3"
  have "trail H s ?s1" by (rule trail_updateObstacles)
  then have "trail H s ?s2" by (rule trail_trans) (rule trail_updateStars)
  then have "trail H s ?s3" by (rule trail_trans) (rule trail_updatePowerUps)
  then have "trail H s ?s4" by (rule trail.still) (rule quiet_updateParticles)
  then have "trail H s (updateConfetti ?s4)" by (rule trail.still) (rule quiet_updateConfetti)
  then show ?thesis
    by (simp add: loops_def)
qed

lemma trail_advance: "trail H s (advance H s)"
proof -
  let ?s6 = "(loops H s)\<lparr>score := score (loops H s) + 1\<rparr>"
  have "trail H s ?s6" by (rule trail.points[OF trail_loops]) simp
  then have "trail H s (updateScoreDisplay ?s6)"
    by (rule trail.still) (rule quiet_updateScoreDisplay)
  then have "trail H s (requestAnimationFrame (updateScoreDisplay ?s6))"
    by (rule trail.still) (rule quiet_requestAnimationFrame)
  then show ?thesis
    by (simp add: advance_loops)
qed

subsection \<open>The first half of a frame\<close>

lemma boundary_check:
  "(let s1 = s\<lparr>rocket := r4\<rparr>
    in if r_y r4 + r_height r4 > canvasHeight s1 \<or> r_y r4 < 0
       then (if \<not> hasShield r4
             then endGame H s1
             else s1\<lparr>rocket := r4\<lparr>r_y := max 0 (min (canvasHeight s1 - r_height r4) (r_y r4)),
                                   velocity := 0\<rparr>\<rparr>)
       else s1) =
   (if outOfBounds s r4
    then (if \<not> hasShield r4
          then endGame H (s\<lparr>rocket := r4\<rparr>)
          else s\<lparr>rocket := r4\<lparr>r_y := max 0 (min (canvasHeight s - r_height r4) (r_y r4)),
                               velocity := 0\<rparr>\<rparr>)
    else s\<lparr>rocket := r4\<rparr>)"
  by (simp add: outOfBounds_def Let_def)

lemma updateRocket_cases:
  "updateRocket H s =
     (if outOfBounds s (fallen (rocket s))
      then (if \<not> hasShield (fallen (rocket s))
            then endGame H (s\<lparr>rocket := fallen (rocket s)\<rparr>)
            else s\<lparr>rocket := (fallen (rocket s))
                   \<lparr>r_y := max 0 (min (canvasHeight s - r_height (fallen (rocket s)))
                                       (r_y (fallen (rocket s)))),
                    velocity := 0\<rparr>\<rparr>)
      else s\<lparr>rocket := fallen (rocket s)\<rparr>)"
proof -
  have "updateRocket H s =
     (let r4 = fallen (rocket s);
          s1 = s\<lparr>rocket := r4\<rparr>
      in if r_y r4 + r_height r4 > canvasHeight s1 \<or> r_y r4 < 0
         then (if \<not> hasShield r4
               then endGame H s1
               else s1\<lparr>rocket := r4\<lparr>r_y := max 0 (min (canvasHeight s1 - r_height r4) (r_y r4)),
                                     velocity := 0\<rparr>\<rparr>)
         else s1)"
    by (simp only: updateRocket_def fallen_def Let_def)
  then show ?thesis
    by (simp only: Let_def[of "fallen (rocket s)"] boundary_check)
qed

lemma fallen_geometry [simp]:
  "r_x (fallen r) = r_x r" "r_width (fallen r) = r_width r" "r_height (fallen r) = r_height r"
  "r_y (fallen r) = r_y r + (velocity r + gravity r)"
  "velocity (fallen r) = velocity r + gravity r"
  by (simp_all add: fallen_def Let_def)

lemma fallen_shield:
  "hasShield (fallen r) \<longleftrightarrow> hasShield r \<and> 1 < shieldTime r"
  by (auto simp add: fallen_def Let_def)

lemma trail_updateRocket:
  "trail H (s\<lparr>rocket := rocket (updateRocket H s)\<rparr>) (updateRocket H s)"
proof (cases "outOfBounds s (fallen (rocket s)) \<and> \<not> hasShield (fallen (rocket s))")
  case True
  then have "updateRocket H s = endGame H (s\<lparr>rocket := fallen (rocket s)\<rparr>)"
    by (simp add: updateRocket_cases)
  then show ?thesis
    by (simp add: endGame_fields trail.over[OF trail.start])
next
  case False
  then have "updateRocket H s = s\<lparr>rocket := rocket (updateRocket H s)\<rparr>"
    by (auto simp add: updateRocket_cases)
  then show ?thesis
    by (metis trail.start)
qed

lemma spawn_split: "spawn H s = spawners H (updateRocket H (levelled s))"
  by (simp only: spawn_def spawners_def levelled_def Let_def) simp

lemma quiet_spawners: "quiet s (spawners H s)"
proof -
  let ?s4 = "if onCadence (frameCount s) (spawnPeriod (level s)) then createObstacle H s else s"
  let ?s5 = "if onCadence (frameCount ?s4) 80 then createStar H ?s4 else ?s4"
  let ?s6 = "if onCadence (frameCount ?s5) 300 then createPowerUp H ?s5 else ?s5"
  have "quiet s ?s4" by (simp add: quiet_refl quiet_createObstacle)
  moreover have "quiet ?s4 ?s5" by (simp add: quiet_refl quiet_createStar)
  ultimately have "quiet s ?s5" by (rule quiet_trans)
  moreover have "quiet ?s5 ?s6" by (simp add: quiet_refl quiet_createPowerUp)
  ultimately have "quiet s ?s6" by (rule quiet_trans)
  then show ?thesis by (simp add: spawners_def Let_def)
qed

lemma rocket_spawn: "rocket (spawn H s) = rocket (updateRocket H (levelled s))"
  using quiet_spawners[of "updateRocket H (levelled s)" H] by (simp add: spawn_split quiet_def)

lemma trail_spawn: "trail H (base H s) (spawn H s)"
proof -
  have "trail H (base H s) (updateRocket H (levelled s))"
    unfolding base_def rocket_spawn by (rule trail_updateRocket)
  then show ?thesis
    unfolding spawn_split by (rule trail.still) (rule quiet_spawners)
qed

lemma trail_gameLoop:
  "gameRunning s \<Longrightarrow> trail H (base H s) (gameLoop H False s)"
  using trail_trans[OF trail_spawn trail_advance] by (simp add: gameLoop_def)

lemma base_fields [simp]:
  "score (base H s) = score s" "level (base H s) = levelOf (score s)"
  "highScore (base H s) = highScore s" "storage (base H s) = storage s"
  "gameRunning (base H s) = gameRunning s" "frameCount (base H s) = frameCount s + 1"
  "canvasWidth (base H s) = canvasWidth s" "canvasHeight (base H s) = canvasHeight s"
  "elements (base H s) = elements s" "rocket (base H s) = rocket (spawn H s)"
  by (simp_all add: base_def levelled_def)

subsection \<open>What the loops find\<close>

lemma trail_view:
  assumes "trail H s u"
  shows "obstacleHitNow u = obstacleHitNow s" "obstaclePassedNow u = obstaclePassedNow s"
    "starCollectedNow u = starCollectedNow s" "powerUpCollectedNow u = powerUpCollectedNow s"
  using trail_frame[OF assms]
  by (simp_all add: fun_eq_iff obstacleHitNow_def obstaclePassedNow_def starCollectedNow_def
        powerUpCollectedNow_def checkCollision_def scrollSpeed_def)

lemma createExplosion_fields [simp]:
  "gameRunning (createExplosion H x y c s) = gameRunning s"
  "score (createExplosion H x y c s) = score s"
  "highScore (createExplosion H x y c s) = highScore s"
  "level (createExplosion H x y c s) = level s"
  "rocket (createExplosion H x y c s) = rocket s"
  "obstacles (createExplosion H x y c s) = obstacles s"
  "stars (createExplosion H x y c s) = stars s"
  "powerUps (createExplosion H x y c s) = powerUps s"
  "particles (createExplosion H x y c s) =
     particles s @ map (explosionParticle H (rng s) x y c) [0..<15]"
  by (simp_all add: createExplosion_def)

lemma obstacleRound_fields:
  "score (snd (obstacleRound H ob s)) = score s + (if obstaclePassedNow s ob then 50 else 0)"
  "gameRunning (snd (obstacleRound H ob s)) \<longleftrightarrow>
     gameRunning s \<and> \<not> (obstacleHitNow s ob \<and> \<not> hasShield (rocket s))"
  "hasShield (rocket (snd (obstacleRound H ob s))) \<longleftrightarrow>
     hasShield (rocket s) \<and> \<not> obstacleHitNow s ob"
  "shieldTime (rocket (snd (obstacleRound H ob s))) =
     (if hasShield (rocket s) \<and> obstacleHitNow s ob then 0 else shieldTime (rocket s))"
  "stars (snd (obstacleRound H ob s)) = stars s"
  "powerUps (snd (obstacleRound H ob s)) = powerUps s"
  by (simp_all add: obstacleRound_def Let_def obstacleHitNow_def obstaclePassedNow_def
        endGame_fields)

lemma obstacleRound_entry:
  "fst (obstacleRound H ob s) =
     (if o_x ob - scrollSpeed s + o_width ob < 0 then None
      else Some (ob\<lparr>o_x := o_x ob - scrollSpeed s,
                     passed := passed ob \<or> obstaclePassedNow s ob\<rparr>))"
  by (auto simp add: obstacleRound_def Let_def obstaclePassedNow_def endGame_fields)

lemma count_simps [simp]:
  "count P [] = 0"
  "count P (x # xs) = (if P x then 1 else 0) + count P xs"
  by (simp_all add: count_def)

lemma count_nonneg: "0 \<le> count P xs"
  by (simp add: count_def)

lemma count_pos_iff: "0 < count P xs \<longleftrightarrow> (\<exists>x \<in> set xs. P x)"
  by (induction xs) (auto simp add: count_nonneg add_pos_nonneg)

lemma obstaclesLoop_fields:
  "score (snd (obstaclesLoop H obs s)) = score s + 50 * count (obstaclePassedNow s) obs"
  "hasShield (rocket (snd (obstaclesLoop H obs s))) \<longleftrightarrow>
     hasShield (rocket s) \<and> count (obstacleHitNow s) obs = 0"
  "gameRunning (snd (obstaclesLoop H obs s)) \<longleftrightarrow>
     gameRunning s \<and> count (obstacleHitNow s) obs \<le> (if hasShield (rocket s) then 1 else 0)"
  "stars (snd (obstaclesLoop H obs s)) = stars s"
  "powerUps (snd (obstaclesLoop H obs s)) = powerUps s"
proof (induction obs)
  case Nil
  {
    case 1 show ?case by simp
  next
    case 2 show ?case by simp
  next
    case 3 show ?case by simp
  next
    case 4 show ?case by simp
  next
    case 5 show ?case by simp
  }
next
  case (Cons ob obs)
  obtain obs' s1 where l: "obstaclesLoop H obs s = (obs', s1)"
    by (cases "obstaclesLoop H obs s")
  have t: "trail H s s1"
    using trail_obstaclesLoop[of H s obs] l by simp
  obtain e s2 where r: "obstacleRound H ob s1 = (e, s2)"
    by (cases "obstacleRound H ob s1")
  have s2: "snd (obstaclesLoop H (ob # obs) s) = snd (obstacleRound H ob s1)"
    using l r by (simp split: option.splits)
  note f = obstacleRound_fields[of H ob s1] trail_view[OF t]
  note ih = Cons.IH[unfolded l snd_conv]
  have n: "0 \<le> count (obstacleHitNow s) obs"
    by (rule count_nonneg)
  {
    case 1 show ?case unfolding s2 by (simp add: f ih)
  next
    case 2 show ?case unfolding s2 using n by (auto simp add: f ih)
  next
    case 3 show ?case unfolding s2 using n by (auto simp add: f ih)
  next
    case 4 show ?case unfolding s2 by (simp add: f ih)
  next
    case 5 show ?case unfolding s2 by (simp add: f ih)
  }
qed

lemma updateObstacles_unfold:
  "updateObstacles H s = (snd (obstaclesLoop H (obstacles s) s))\<lparr>obstacles := fst (obstaclesLoop H (obstacles s) s)\<rparr>"
  by (simp add: updateObstacles_def split: prod.splits)

lemma updateObstacles_fields:
  "score (updateObstacles H s) = score s + 50 * count (obstaclePassedNow s) (obstacles s)"
  "hasShield (rocket (updateObstacles H s)) \<longleftrightarrow>
     hasShield (rocket s) \<and> count (obstacleHitNow s) (obstacles s) = 0"
  "gameRunning (updateObstacles H s) \<longleftrightarrow>
     gameRunning s \<and>
     count (obstacleHitNow s) (obstacles s) \<le> (if hasShield (rocket s) then 1 else 0)"
  "stars (updateObstacles H s) = stars s"
  "powerUps (updateObstacles H s) = powerUps s"
  by (simp_all add: updateObstacles_unfold obstaclesLoop_fields)

lemma starRound_fields:
  "score (snd (starRound H st s)) = score s + (if starCollectedNow s st then 100 else 0)"
  "gameRunning (snd (starRound H st s)) = gameRunning s"
  "highScore (snd (starRound H st s)) = highScore s"
  "rocket (snd (starRound H st s)) = rocket s"
  "powerUps (snd (starRound H st s)) = powerUps s"
  by (simp_all add: starRound_def Let_def starCollectedNow_def)

lemma starsLoop_fields:
  "score (snd (starsLoop H sts s)) = score s + 100 * count (starCollectedNow s) sts"
  "gameRunning (snd (starsLoop H sts s)) = gameRunning s"
  "highScore (snd (starsLoop H sts s)) = highScore s"
  "rocket (snd (starsLoop H sts s)) = rocket s"
  "powerUps (snd (starsLoop H sts s)) = powerUps s"
proof (induction sts)
  case Nil
  {
    case 1 show ?case by simp
  next
    case 2 show ?case by simp
  next
    case 3 show ?case by simp
  next
    case 4 show ?case by simp
  next
    case 5 show ?case by simp
  }
next
  case (Cons st sts)
  obtain sts' s1 where l: "starsLoop H sts s = (sts', s1)"
    by (cases "starsLoop H sts s")
  have t: "trail H s s1"
    using trail_starsLoop[of H s sts] l by simp
  obtain e s2 where r: "starRound H st s1 = (e, s2)"
    by (cases "starRound H st s1")
  have s2: "snd (starsLoop H (st # sts) s) = snd (starRound H st s1)"
    using l r by (simp split: option.splits)
  note f = starRound_fields[of H st s1] trail_view[OF t]
  note ih = Cons.IH[unfolded l snd_conv]
  {
    case 1 show ?case unfolding s2 by (simp add: f ih)
  next
    case 2 show ?case unfolding s2 by (simp add: f ih)
  next
    case 3 show ?case unfolding s2 by (simp add: f ih)
  next
    case 4 show ?case unfolding s2 by (simp add: f ih)
  next
    case 5 show ?case unfolding s2 by (simp add: f ih)
  }
qed

lemma updateStars_unfold:
  "updateStars H s = (snd (starsLoop H (stars s) s))\<lparr>stars := fst (starsLoop H (stars s) s)\<rparr>"
  by (simp add: updateStars_def split: prod.splits)

lemma updateStars_fields:
  "score (updateStars H s) = score s + 100 * count (starCollectedNow s) (stars s)"
  "gameRunning (updateStars H s) = gameRunning s"
  "highScore (updateStars H s) = highScore s"
  "rocket (updateStars H s) = rocket s"
  "powerUps (updateStars H s) = powerUps s"
  by (simp_all add: updateStars_unfold starsLoop_fields)

lemma powerUpRound_fields:
  "score (snd (powerUpRound H pu s)) = score s"
  "gameRunning (snd (powerUpRound H pu s)) = gameRunning s"
  "highScore (snd (powerUpRound H pu s)) = highScore s"
  "hasShield (rocket (snd (powerUpRound H pu s))) \<longleftrightarrow>
     hasShield (rocket s) \<or> powerUpCollectedNow s pu"
  "shieldTime (rocket (snd (powerUpRound H pu s))) =
     (if powerUpCollectedNow s pu then 300 else shieldTime (rocket s))"
  by (simp_all add: powerUpRound_def Let_def powerUpCollectedNow_def)

lemma powerUpsLoop_fields:
  "score (snd (powerUpsLoop H pus s)) = score s"
  "gameRunning (snd (powerUpsLoop H pus s)) = gameRunning s"
  "highScore (snd (powerUpsLoop H pus s)) = highScore s"
  "hasShield (rocket (snd (powerUpsLoop H pus s))) \<longleftrightarrow>
     hasShield (rocket s) \<or> 0 < count (powerUpCollectedNow s) pus"
  "shieldTime (rocket (snd (powerUpsLoop H pus s))) =
     (if 0 < count (powerUpCollectedNow s) pus then 300 else shieldTime (rocket s))"
proof (induction pus)
  case Nil
  {
    case 1 show ?case by simp
  next
    case 2 show ?case by simp
  next
    case 3 show ?case by simp
  next
    case 4 show ?case by simp
  next
    case 5 show ?case by simp
  }
next
  case (Cons pu pus)
  obtain pus' s1 where l: "powerUpsLoop H pus s = (pus', s1)"
    by (cases "powerUpsLoop H pus s")
  have t: "trail H s s1"
    using trail_powerUpsLoop[of H s pus] l by simp
  obtain e s2 where r: "powerUpRound H pu s1 = (e, s2)"
    by (cases "powerUpRound H pu s1")
  have s2: "snd (powerUpsLoop H (pu # pus) s) = snd (powerUpRound H pu s1)"
    using l r by (simp split: option.splits)
  note f = powerUpRound_fields[of H pu s1] trail_view[OF t]
  note ih = Cons.IH[unfolded l snd_conv]
  have n: "0 \<le> count (powerUpCollectedNow s) pus"
    by (rule count_nonneg)
  {
    case 1 show ?case unfolding s2 by (simp add: f ih)
  next
    case 2 show ?case unfolding s2 by (simp add: f ih)
  next
    case 3 show ?case unfolding s2 by (simp add: f ih)
  next
    case 4 show ?case unfolding s2 using n by (auto simp add: f ih)
  next
    case 5 show ?case unfolding s2 using n by (auto simp add: f ih)
  }
qed

lemma updatePowerUps_unfold:
  "updatePowerUps H s = (snd (powerUpsLoop H (powerUps s) s))\<lparr>powerUps := fst (powerUpsLoop H (powerUps s) s)\<rparr>"
  by (simp add: updatePowerUps_def split: prod.splits)

lemma updatePowerUps_fields:
  "score (updatePowerUps H s) = score s"
  "gameRunning (updatePowerUps H s) = gameRunning s"
  "highScore (updatePowerUps H s) = highScore s"
  "hasShield (rocket (updatePowerUps H s)) \<longleftrightarrow>
     hasShield (rocket s) \<or> 0 < count (powerUpCollectedNow s) (powerUps s)"
  "shieldTime (rocket (updatePowerUps H s)) =
     (if 0 < count (powerUpCollectedNow s) (powerUps s) then 300 else shieldTime (rocket s))"
  by (simp_all add: updatePowerUps_unfold powerUpsLoop_fields)

lemma tail_fields [simp]:
  "score (updateParticles s) = score s" "gameRunning (updateParticles s) = gameRunning s"
  "rocket (updateParticles s) = rocket s" "highScore (updateParticles s) = highScore s"
  "score (updateConfetti s) = score s" "gameRunning (updateConfetti s) = gameRunning s"
  "rocket (updateConfetti s) = rocket s" "highScore (updateConfetti s) = highScore s"
  "score (requestAnimationFrame s) = score s"
  "gameRunning (requestAnimationFrame s) = gameRunning s"
  "rocket (requestAnimationFrame s) = rocket s"
  "highScore (requestAnimationFrame s) = highScore s"
  by (simp_all add: updateParticles_def updateConfetti_def requestAnimationFrame_def)

text \<open>The second half of a frame, read on the state it starts from.\<close>

lemma advance_fields:
  "score (advance H s) =
     score s + 1 + 50 * count (obstaclePassedNow s) (obstacles s)
       + 100 * count (starCollectedNow s) (stars s)"
  "gameRunning (advance H s) \<longleftrightarrow>
     gameRunning s \<and>
     count (obstacleHitNow s) (obstacles s) \<le> (if hasShield (rocket s) then 1 else 0)"
  "hasShield (rocket (advance H s)) \<longleftrightarrow>
     hasShield (rocket s) \<and> count (obstacleHitNow s) (obstacles s) = 0 \<or>
     0 < count (powerUpCollectedNow s) (powerUps s)"
  "shieldTime (rocket (advance H s)) =
     (if 0 < count (powerUpCollectedNow s) (powerUps s) then 300
      else shieldTime (rocket (updateObstacles H s)))"
proof -
  let ?s1 = "updateObstacles H s"
  let ?s2 = "updateStars H ?s1"
  have t1: "trail H s ?s1" by (rule trail_updateObstacles)
  have t2: "trail H s ?s2" by (rule trail_trans[OF t1 trail_updateStars])
  note v = trail_view[OF t1] trail_view[OF t2]
  note f = updateObstacles_fields[of H s] updateStars_fields[of H ?s1]
    updatePowerUps_fields[of H ?s2]
  show "score (advance H s) =
     score s + 1 + 50 * count (obstaclePassedNow s) (obstacles s)
       + 100 * count (starCollectedNow s) (stars s)"
    by (simp add: advance_def Let_def f v)
  show "gameRunning (advance H s) \<longleftrightarrow>
     gameRunning s \<and>
     count (obstacleHitNow s) (obstacles s) \<le> (if hasShield (rocket s) then 1 else 0)"
    by (simp add: advance_def Let_def f v)
  show "hasShield (rocket (advance H s)) \<longleftrightarrow>
     hasShield (rocket s) \<and> count (obstacleHitNow s) (obstacles s) = 0 \<or>
     0 < count (powerUpCollectedNow s) (powerUps s)"
    by (simp add: advance_def Let_def f v)
  show "shieldTime (rocket (advance H s)) =
     (if 0 < count (powerUpCollectedNow s) (powerUps s) then 300
      else shieldTime (rocket (updateObstacles H s)))"
    by (simp add: advance_def Let_def f v)
qed

lemma spawn_fields:
  "score (spawn H s) = score s"
  "level (spawn H s) = levelOf (score s)"
  "frameCount (spawn H s) = frameCount s + 1"
  "canvasWidth (spawn H s) = canvasWidth s"
  "canvasHeight (spawn H s) = canvasHeight s"
  "gameRunning (spawn H s) \<longleftrightarrow>
     gameRunning s \<and> \<not> (outOfBounds s (fallen (rocket s)) \<and> \<not> hasShield (fallen (rocket s)))"
proof -
  have q: "quiet (updateRocket H (levelled s)) (spawn H s)"
    unfolding spawn_split by (rule quiet_spawners)
  have o: "outOfBounds (levelled s) r = outOfBounds s r" for r
    by (simp add: outOfBounds_def levelled_def)
  have r: "rocket (levelled s) = rocket s"
    by (simp add: levelled_def)
  show "score (spawn H s) = score s"
    using q by (simp add: quiet_def updateRocket_cases endGame_fields levelled_def)
  show "level (spawn H s) = levelOf (score s)"
    using q by (simp add: quiet_def updateRocket_cases endGame_fields levelled_def)
  show "frameCount (spawn H s) = frameCount s + 1"
    using q by (simp add: quiet_def updateRocket_cases endGame_fields levelled_def)
  show "canvasWidth (spawn H s) = canvasWidth s"
    using q by (simp add: quiet_def updateRocket_cases endGame_fields levelled_def)
  show "canvasHeight (spawn H s) = canvasHeight s"
    using q by (simp add: quiet_def updateRocket_cases endGame_fields levelled_def)
  show "gameRunning (spawn H s) \<longleftrightarrow>
     gameRunning s \<and> \<not> (outOfBounds s (fallen (rocket s)) \<and> \<not> hasShield (fallen (rocket s)))"
    using q by (simp add: quiet_def updateRocket_cases endGame_fields o r) (simp add: levelled_def)
qed

lemma rocket_spawn_cases:
  "rocket (spawn H s) =
     (if outOfBounds s (fallen (rocket s)) \<and> hasShield (fallen (rocket s))
      then (fallen (rocket s))
             \<lparr>r_y := max 0 (min (canvasHeight s - r_height (rocket s)) (r_y (fallen (rocket s)))),
              velocity := 0\<rparr>
      else fallen (rocket s))"
proof -
  have o: "outOfBounds (levelled s) r = outOfBounds s r" for r
    by (simp add: outOfBounds_def levelled_def)
  have r: "rocket (levelled s) = rocket s" "canvasHeight (levelled s) = canvasHeight s"
    by (simp_all add: levelled_def)
  show ?thesis
    by (simp add: rocket_spawn updateRocket_cases endGame_fields o r)
qed

subsection \<open>The spawn cadence\<close>

lemma obstacles_updateRocket: "obstacles (updateRocket H s) = obstacles s"
  by (simp add: updateRocket_cases endGame_fields)

lemma obstacles_spawners:
  "length (obstacles (spawners H s)) =
     length (obstacles s) + (if onCadence (frameCount s) (spawnPeriod (level s)) then 1 else 0)"
  by (simp add: spawners_def Let_def createObstacle_def createStar_def createPowerUp_def)

lemma levelOf_le_iff: "levelOf sc \<le> k \<longleftrightarrow> sc < 500 * k"
  unfolding levelOf_def by linarith

text \<open>
  C1 (as amended). The frame that starts in \<open>s\<close> spawns an obstacle exactly when the
  remainder of the new frame count by \<open>obstacleFrequency - 5 * level\<close> is 0, with the level
  just computed from the score and with no clamping of that period. The period is positive
  exactly while the score is below 13500 (level 27 or less), and then it is at least 5. A
  period of 0 gives the remainder \<open>NaN\<close>, which is not 0, so nothing is spawned and nothing
  fails; a negative period counts as its magnitude.
\<close>

theorem spawn_period_not_clamped:
  "length (obstacles (spawn H s)) =
     length (obstacles s) +
     (if onCadence (frameCount s + 1) (spawnPeriod (levelOf (score s))) then 1 else 0) \<and>
   (0 < spawnPeriod (levelOf (score s)) \<longleftrightarrow> score s < 13500) \<and>
   (5 \<le> spawnPeriod (levelOf (score s)) \<longleftrightarrow> score s < 13500) \<and>
   \<not> onCadence f 0 \<and>
   onCadence f (- p) = onCadence f p"
proof -
  have "length (obstacles (spawn H s)) =
     length (obstacles s) +
     (if onCadence (frameCount s + 1) (spawnPeriod (levelOf (score s))) then 1 else 0)"
    by (simp add: spawn_split obstacles_spawners obstacles_updateRocket updateRocket_cases
          endGame_fields) (simp add: levelled_def)
  moreover have "0 < spawnPeriod (levelOf (score s)) \<longleftrightarrow> score s < 13500"
    using levelOf_le_iff[of "score s" 27] by (auto simp add: spawnPeriod_def obstacleFrequency_def)
  moreover have "5 \<le> spawnPeriod (levelOf (score s)) \<longleftrightarrow> score s < 13500"
    using levelOf_le_iff[of "score s" 27] by (auto simp add: spawnPeriod_def obstacleFrequency_def)
  moreover have "\<not> onCadence f 0"
    by (simp add: onCadence_def js_rem_def)
  moreover have "onCadence f (- p) = onCadence f p"
    by (simp add: onCadence_def js_rem_def)
  ultimately show ?thesis
    by blast
qed

theorem spawn_period_not_clamped_witness:
  "length (obstacles (spawn plainHost lateGame)) = 0 \<and>
   \<not> 0 < spawnPeriod (levelOf (score lateGame)) \<and>
   \<not> onCadence 140 0 \<and>
   onCadence 10 (- 5)"
  using spawn_period_not_clamped[of plainHost lateGame 10 5]
    spawn_period_not_clamped[of plainHost lateGame 140 5]
  by (simp add: lateGame_def initGame_def Let_def resetGame_def onCadence_def js_rem_def
        spawnPeriod_def levelOf_def obstacleFrequency_def)

theorem spawn_period_zero_at_level_28:
  "level (spawn plainHost lateGame) = 28 \<and>
   spawnPeriod (level (spawn plainHost lateGame)) = 0 \<and>
   js_rem (frameCount (spawn plainHost lateGame)) (spawnPeriod (level (spawn plainHost lateGame))) = None"
  by (simp add: spawn_fields lateGame_def levelOf_def spawnPeriod_def obstacleFrequency_def
        js_rem_def)

subsection \<open>What the loops leave in the lists\<close>

lemma trail_left:
  assumes "trail H s u"
  shows "obstacleLeft u = obstacleLeft s" "starLeft u = starLeft s" "powerUpLeft u = powerUpLeft s"
  using trail_frame[OF assms] trail_view[OF assms]
  by (simp_all add: fun_eq_iff obstacleLeft_def starLeft_def powerUpLeft_def scrollSpeed_def)

lemma obstacleRound_left: "fst (obstacleRound H ob s) = obstacleLeft s ob"
  by (simp add: obstacleRound_entry obstacleLeft_def)

lemma starRound_left: "fst (starRound H st s) = starLeft s st"
  by (auto simp add: starRound_def Let_def starLeft_def starCollectedNow_def)

lemma powerUpRound_left: "fst (powerUpRound H pu s) = powerUpLeft s pu"
  by (auto simp add: powerUpRound_def Let_def powerUpLeft_def powerUpCollectedNow_def)

lemma obstaclesLoop_left: "fst (obstaclesLoop H obs s) = List.map_filter (obstacleLeft s) obs"
proof (induction obs)
  case Nil
  show ?case by (simp add: List.map_filter_simps)
next
  case (Cons ob obs)
  obtain obs' s1 where l: "obstaclesLoop H obs s = (obs', s1)"
    by (cases "obstaclesLoop H obs s")
  have t: "trail H s s1"
    using trail_obstaclesLoop[of H s obs] l by simp
  have "fst (obstacleRound H ob s1) = obstacleLeft s ob"
    by (simp add: obstacleRound_left trail_left[OF t])
  with Cons l show ?case
    by (cases "obstacleRound H ob s1") (auto simp add: List.map_filter_simps split: option.splits)
qed

lemma starsLoop_left: "fst (starsLoop H sts s) = List.map_filter (starLeft s) sts"
proof (induction sts)
  case Nil
  show ?case by (simp add: List.map_filter_simps)
next
  case (Cons st sts)
  obtain sts' s1 where l: "starsLoop H sts s = (sts', s1)"
    by (cases "starsLoop H sts s")
  have t: "trail H s s1"
    using trail_starsLoop[of H s sts] l by simp
  have "fst (starRound H st s1) = starLeft s st"
    by (simp add: starRound_left trail_left[OF t])
  with Cons l show ?case
    by (cases "starRound H st s1") (auto simp add: List.map_filter_simps split: option.splits)
qed

lemma powerUpsLoop_left: "fst (powerUpsLoop H pus s) = List.map_filter (powerUpLeft s) pus"
proof (induction pus)
  case Nil
  show ?case by (simp add: List.map_filter_simps)
next
  case (Cons pu pus)
  obtain pus' s1 where l: "powerUpsLoop H pus s = (pus', s1)"
    by (cases "powerUpsLoop H pus s")
  have t: "trail H s s1"
    using trail_powerUpsLoop[of H s pus] l by simp
  have "fst (powerUpRound H pu s1) = powerUpLeft s pu"
    by (simp add: powerUpRound_left trail_left[OF t])
  with Cons l show ?case
    by (cases "powerUpRound H pu s1") (auto simp add: List.map_filter_simps split: option.splits)
qed

text \<open>The stars loop touches the score, the particles and the random draws only.\<close>

lemma starsLoop_frame:
  "\<exists>sc ps k. snd (starsLoop H sts s) = s\<lparr>score := sc, particles := ps, rng := k\<rparr>"
proof (induction sts)
  case Nil
  have "s = s\<lparr>score := score s, particles := particles s, rng := rng s\<rparr>" by simp
  then show ?case by (metis starsLoop.simps(1) snd_conv)
next
  case (Cons st sts)
  obtain sts' s1 where l: "starsLoop H sts s = (sts', s1)"
    by (cases "starsLoop H sts s")
  from Cons l obtain sc ps k where s1: "s1 = s\<lparr>score := sc, particles := ps, rng := k\<rparr>"
    by auto
  have "\<exists>sc' ps' k'. snd (starRound H st s1) = s1\<lparr>score := sc', particles := ps', rng := k'\<rparr>"
  proof (cases "starCollectedNow s1 st")
    case True
    then have "snd (starRound H st s1) =
        s1\<lparr>score := score s1 + 100,
           particles := particles s1 @ map (explosionParticle H (rng s1) (st_x st - scrollSpeed s1)
              (st_y st) (Hex ''#ffd700'')) [0..<15],
           rng := rng s1 + 45\<rparr>"
      by (simp add: starRound_def Let_def starCollectedNow_def createExplosion_def)
    then show ?thesis by blast
  next
    case False
    then have "snd (starRound H st s1) = s1"
      by (auto simp add: starRound_def Let_def starCollectedNow_def)
    also have "\<dots> = s1\<lparr>score := score s1, particles := particles s1, rng := rng s1\<rparr>"
      by simp
    finally show ?thesis by blast
  qed
  then obtain sc' ps' k' where
    "snd (starRound H st s1) = s\<lparr>score := sc', particles := ps', rng := k'\<rparr>"
    unfolding s1 by auto
  moreover have "snd (starsLoop H (st # sts) s) = snd (starRound H st s1)"
    using l by (cases "starRound H st s1") (simp split: option.splits)
  ultimately show ?case by metis
qed

text \<open>The power-up loop touches the rocket, the particles and the random draws only.\<close>

lemma powerUpsLoop_frame:
  "\<exists>r ps k. snd (powerUpsLoop H pus s) = s\<lparr>rocket := r, particles := ps, rng := k\<rparr>"
proof (induction pus)
  case Nil
  have "s = s\<lparr>rocket := rocket s, particles := particles s, rng := rng s\<rparr>" by simp
  then show ?case by (metis powerUpsLoop.simps(1) snd_conv)
next
  case (Cons pu pus)
  obtain pus' s1 where l: "powerUpsLoop H pus s = (pus', s1)"
    by (cases "powerUpsLoop H pus s")
  from Cons l obtain r ps k where s1: "s1 = s\<lparr>rocket := r, particles := ps, rng := k\<rparr>"
    by auto
  have "\<exists>r' ps' k'. snd (powerUpRound H pu s1) = s1\<lparr>rocket := r', particles := ps', rng := k'\<rparr>"
  proof (cases "powerUpCollectedNow s1 pu")
    case True
    then have "snd (powerUpRound H pu s1) =
        s1\<lparr>rocket := (rocket s1)\<lparr>hasShield := True, shieldTime := 300\<rparr>,
           particles := particles s1 @ map (explosionParticle H (rng s1) (pu_x pu - scrollSpeed s1)
              (pu_y pu) (Hex ''#4ecdc4'')) [0..<15],
           rng := rng s1 + 45\<rparr>"
      by (simp add: powerUpRound_def Let_def powerUpCollectedNow_def createExplosion_def)
    then show ?thesis by blast
  next
    case False
    then have "snd (powerUpRound H pu s1) = s1"
      by (auto simp add: powerUpRound_def Let_def powerUpCollectedNow_def)
    also have "\<dots> = s1\<lparr>rocket := rocket s1, particles := particles s1, rng := rng s1\<rparr>"
      by simp
    finally show ?thesis by blast
  qed
  then obtain r' ps' k' where
    "snd (powerUpRound H pu s1) = s\<lparr>rocket := r', particles := ps', rng := k'\<rparr>"
    unfolding s1 by auto
  moreover have "snd (powerUpsLoop H (pu # pus) s) = snd (powerUpRound H pu s1)"
    using l by (cases "powerUpRound H pu s1") (simp split: option.splits)
  ultimately show ?case by metis
qed

lemma loops_lists:
  "obstacles (loops H s) = List.map_filter (obstacleLeft s) (obstacles s)"
  "stars (loops H s) = List.map_filter (starLeft s) (stars s)"
  "powerUps (loops H s) = List.map_filter (powerUpLeft s) (powerUps s)"
proof -
  let ?s1 = "updateObstacles H s"
  let ?s2 = "updateStars H ?s1"
  let ?s3 = "updatePowerUps H ?s2"
  have t1: "trail H s ?s1" by (rule trail_updateObstacles)
  have t2: "trail H s ?s2" by (rule trail_trans[OF t1 trail_updateStars])
  obtain sc ps k where
    a: "snd (starsLoop H (stars ?s1) ?s1) = ?s1\<lparr>score := sc, particles := ps, rng := k\<rparr>"
    using starsLoop_frame by blast
  obtain r ps' k' where
    b: "snd (powerUpsLoop H (powerUps ?s2) ?s2) = ?s2\<lparr>rocket := r, particles := ps', rng := k'\<rparr>"
    using powerUpsLoop_frame by blast
  have o1: "obstacles ?s1 = List.map_filter (obstacleLeft s) (obstacles s)"
    by (simp add: updateObstacles_unfold obstaclesLoop_left)
  have o2: "obstacles ?s2 = obstacles ?s1"
    by (simp add: updateStars_unfold[of H ?s1] a)
  have o3: "obstacles ?s3 = obstacles ?s2"
    by (simp add: updatePowerUps_unfold[of H ?s2] b)
  have s2: "stars ?s2 = List.map_filter (starLeft s) (stars s)"
    by (simp add: updateStars_unfold[of H ?s1] starsLoop_left trail_left[OF t1]
          updateObstacles_fields)
  have s3: "stars ?s3 = stars ?s2"
    by (simp add: updatePowerUps_unfold[of H ?s2] b)
  have p3: "powerUps ?s3 = List.map_filter (powerUpLeft s) (powerUps s)"
    by (simp add: updatePowerUps_unfold[of H ?s2] powerUpsLoop_left trail_left[OF t2]
          updateStars_fields updateObstacles_fields)
  show "obstacles (loops H s) = List.map_filter (obstacleLeft s) (obstacles s)"
    by (simp add: loops_def updateConfetti_def updateParticles_def o1 o2 o3)
  show "stars (loops H s) = List.map_filter (starLeft s) (stars s)"
    by (simp add: loops_def updateConfetti_def updateParticles_def s2 s3)
  show "powerUps (loops H s) = List.map_filter (powerUpLeft s) (powerUps s)"
    by (simp add: loops_def updateConfetti_def updateParticles_def p3)
qed

lemma advance_lists:
  "obstacles (advance H s) = List.map_filter (obstacleLeft s) (obstacles s)"
  "stars (advance H s) = List.map_filter (starLeft s) (stars s)"
  "powerUps (advance H s) = List.map_filter (powerUpLeft s) (powerUps s)"
  by (simp_all add: advance_loops requestAnimationFrame_def loops_lists)

lemma midGame_spawn:
  "obstacles (spawn plainHost midGame) = [nearObstacle]"
  "stars (spawn plainHost midGame) = [nearStar]"
  "powerUps (spawn plainHost midGame) = [nearPowerUp]"
  "rocket (spawn plainHost midGame) = initialRocket\<lparr>r_y := 601 / 2, velocity := 1 / 2, rotation := 1 / 40\<rparr>"
  by code_simp+

lemma midGame_fields:
  "gameRunning midGame" "score midGame = 1000" "highScore midGame = 0"
  by (simp_all add: midGame_def)

lemma midGame_finds:
  "obstaclePassedNow (spawn plainHost midGame) nearObstacle"
  "\<not> obstacleHitNow (spawn plainHost midGame) nearObstacle"
  "starCollectedNow (spawn plainHost midGame) nearStar"
  "powerUpCollectedNow (spawn plainHost midGame) nearPowerUp"
  by (simp_all add: obstaclePassedNow_def obstacleHitNow_def starCollectedNow_def
        powerUpCollectedNow_def checkCollision_def scrollSpeed_def spawn_fields midGame_spawn
        hypot_less_iff initialRocket_def obstacleSpeed_def levelOf_def
        nearObstacle_def nearStar_def nearPowerUp_def power2_eq_square midGame_fields)

subsection \<open>The score of a frame\<close>

lemma gameLoop_running: "gameRunning s \<Longrightarrow> gameLoop H False s = advance H (spawn H s)"
  by (simp add: gameLoop_def)

lemma left_flags:
  "obstacleLeft t ob = Some ob' \<Longrightarrow> passed ob' \<longleftrightarrow> passed ob \<or> obstaclePassedNow t ob"
  "starLeft t st = Some st' \<Longrightarrow> st_collected st' \<longleftrightarrow> st_collected st \<or> starCollectedNow t st"
  "powerUpLeft t pu = Some pu' \<Longrightarrow> pu_collected pu' \<longleftrightarrow> pu_collected pu \<or> powerUpCollectedNow t pu"
  by (auto simp add: obstacleLeft_def starLeft_def powerUpLeft_def split: if_splits)

text \<open>
  C3. A frame of a running game adds to the score exactly 1, 50 for each obstacle of the
  list that is not yet flagged \<open>passed\<close> and whose right edge, after the move of this frame,
  is left of the rocket, and 100 for each star that is not yet flagged \<open>collected\<close> and is,
  after its move, within reach of the rocket; so the score grows. The lists the frame leaves
  are what \<open>obstacleLeft\<close> and \<open>starLeft\<close> leave of each entry: an entry that was counted
  is flagged, and a flagged entry is never counted, so each is awarded at most once. This
  holds for the frame that ends the game as for any other.
\<close>

theorem score_of_a_frame:
  assumes "gameRunning s"
  shows "score (gameLoop H False s) =
           score s + 1
           + 50 * count (obstaclePassedNow (spawn H s)) (obstacles (spawn H s))
           + 100 * count (starCollectedNow (spawn H s)) (stars (spawn H s)) \<and>
         score s < score (gameLoop H False s) \<and>
         obstacles (gameLoop H False s) =
           List.map_filter (obstacleLeft (spawn H s)) (obstacles (spawn H s)) \<and>
         stars (gameLoop H False s) =
           List.map_filter (starLeft (spawn H s)) (stars (spawn H s)) \<and>
         \<not> obstaclePassedNow (spawn H s) (ob\<lparr>passed := True\<rparr>) \<and>
         \<not> starCollectedNow (spawn H s) (st\<lparr>st_collected := True\<rparr>)"
proof -
  let ?t = "spawn H s"
  have g: "gameLoop H False s = advance H ?t"
    using assms by (rule gameLoop_running)
  have 1: "score (gameLoop H False s) =
           score s + 1 + 50 * count (obstaclePassedNow ?t) (obstacles ?t)
           + 100 * count (starCollectedNow ?t) (stars ?t)"
    by (simp add: g advance_fields spawn_fields)
  have "0 \<le> count (obstaclePassedNow ?t) (obstacles ?t)"
    and "0 \<le> count (starCollectedNow ?t) (stars ?t)"
    by (rule count_nonneg)+
  with 1 have 2: "score s < score (gameLoop H False s)"
    by linarith
  have 3: "\<not> obstaclePassedNow ?t (ob\<lparr>passed := True\<rparr>)"
    by (simp add: obstaclePassedNow_def)
  have 4: "\<not> starCollectedNow ?t (st\<lparr>st_collected := True\<rparr>)"
    by (simp add: starCollectedNow_def)
  from 1 2 3 4 show ?thesis
    by (simp add: g advance_lists)
qed

theorem score_of_a_frame_witness:
  "gameRunning midGame \<and>
   score midGame = 1000 \<and>
   obstaclePassedNow (spawn plainHost midGame) nearObstacle \<and>
   starCollectedNow (spawn plainHost midGame) nearStar \<and>
   score (gameLoop plainHost False midGame) = 1151 \<and>
   \<not> obstaclePassedNow (spawn plainHost midGame) (nearObstacle\<lparr>passed := True\<rparr>) \<and>
   \<not> starCollectedNow (spawn plainHost midGame) (nearStar\<lparr>st_collected := True\<rparr>)"
proof -
  have r: "gameRunning midGame" and sc: "score midGame = 1000"
    by (simp_all add: midGame_fields)
  from score_of_a_frame[OF r, of plainHost nearObstacle nearStar]
  show ?thesis
    by (simp add: r sc midGame_finds midGame_spawn)
qed

subsection \<open>Game over\<close>

lemma gameLoop_stopped: "\<not> gameRunning s \<Longrightarrow> gameLoop H h s = s"
  by (simp add: gameLoop_def)

lemma frames_stopped: "\<not> gameRunning s \<Longrightarrow> session H (map Frame hs) s = s"
  by (induction hs) (simp_all add: gameLoop_stopped)

text \<open>
  C2. When the rocket of a running game leaves the canvas with no shield left, or, having no
  shield after its move, overlaps an obstacle of the list, the frame leaves the flag
  \<open>gameRunning\<close> false; and from then on every frame returns the state it is given, so
  nothing of the game changes again, the flag included, before \<open>startGame\<close> is called.
\<close>

theorem game_over_is_final:
  assumes "gameRunning s"
    and "outOfBounds s (fallen (rocket s)) \<and> \<not> hasShield (fallen (rocket s)) \<or>
         \<not> hasShield (rocket (spawn H s)) \<and>
         (\<exists>ob \<in> set (obstacles (spawn H s)). obstacleHitNow (spawn H s) ob)"
  shows "\<not> gameRunning (gameLoop H False s) \<and>
         gameLoop H h (gameLoop H False s) = gameLoop H False s \<and>
         session H (map Frame hs) (gameLoop H False s) = gameLoop H False s"
proof -
  let ?t = "spawn H s"
  have g: "gameLoop H False s = advance H ?t"
    using assms(1) by (rule gameLoop_running)
  have "\<not> gameRunning (advance H ?t)"
    using assms(2)
  proof
    assume "outOfBounds s (fallen (rocket s)) \<and> \<not> hasShield (fallen (rocket s))"
    then have "\<not> gameRunning ?t"
      by (simp add: spawn_fields)
    then show ?thesis
      by (simp add: advance_fields)
  next
    assume a: "\<not> hasShield (rocket ?t) \<and> (\<exists>ob \<in> set (obstacles ?t). obstacleHitNow ?t ob)"
    then have "0 < count (obstacleHitNow ?t) (obstacles ?t)"
      by (simp add: count_pos_iff)
    with a show ?thesis
      by (simp add: advance_fields)
  qed
  then have "\<not> gameRunning (gameLoop H False s)"
    by (simp add: g)
  then show ?thesis
    by (simp add: gameLoop_stopped frames_stopped)
qed

lemma lowGame_falls:
  "outOfBounds lowGame (fallen (rocket lowGame))" "\<not> hasShield (fallen (rocket lowGame))"
  "gameRunning lowGame"
  by (simp_all add: lowGame_def midGame_def outOfBounds_def fallen_shield initialRocket_def)

theorem game_over_is_final_witness:
  "gameRunning lowGame \<and>
   outOfBounds lowGame (fallen (rocket lowGame)) \<and> \<not> hasShield (fallen (rocket lowGame)) \<and>
   \<not> gameRunning (gameLoop plainHost False lowGame) \<and>
   session plainHost [Frame False, Frame True, Frame False] (gameLoop plainHost False lowGame) =
     gameLoop plainHost False lowGame"
  using game_over_is_final[of lowGame plainHost False "[False, True, False]"]
    game_over_is_final[of lowGame plainHost True "[]"]
  by (simp add: lowGame_falls)

subsection \<open>The shield\<close>





text \<open>
  C9. When the rocket, after its move, is outside the canvas and still has its shield (the
  timer of the shield is decremented first, and the shield is gone when the timer reaches 0,
  so the rocket had the shield with more than one tick left), \<open>updateRocket\<close> does not
  end the game: it sets the height of the rocket to the nearest value between 0 and the
  canvas height less the rocket height, and its velocity to 0, and the rest of the frame
  leaves both as they are. The height is never negative then, and it is at most the canvas
  height less the rocket height whenever the canvas is as high as the rocket.
\<close>

theorem shielded_rocket_is_clamped:
  assumes "outOfBounds s (fallen (rocket s))" and "hasShield (fallen (rocket s))"
  shows "r_y (rocket (updateRocket H s)) =
           max 0 (min (canvasHeight s - r_height (rocket s)) (r_y (fallen (rocket s)))) \<and>
         velocity (rocket (updateRocket H s)) = 0 \<and>
         gameRunning (updateRocket H s) = gameRunning s \<and>
         (gameRunning s \<longrightarrow>
            r_y (rocket (gameLoop H False s)) = r_y (rocket (updateRocket H s)) \<and>
            velocity (rocket (gameLoop H False s)) = 0) \<and>
         0 \<le> r_y (rocket (updateRocket H s)) \<and>
         (r_height (rocket s) \<le> canvasHeight s \<longrightarrow>
            r_y (rocket (updateRocket H s)) \<le> canvasHeight s - r_height (rocket s)) \<and>
         hasShield (rocket s) \<and> 1 < shieldTime (rocket s)"
proof -
  have u: "updateRocket H s =
      s\<lparr>rocket := (fallen (rocket s))
             \<lparr>r_y := max 0 (min (canvasHeight s - r_height (fallen (rocket s)))
                                 (r_y (fallen (rocket s)))),
              velocity := 0\<rparr>\<rparr>"
    using assms by (simp add: updateRocket_cases)
  have l: "outOfBounds (levelled s) r = outOfBounds s r" "rocket (levelled s) = rocket s"
    "canvasHeight (levelled s) = canvasHeight s" for r
    by (simp_all add: outOfBounds_def levelled_def)
  have r: "rocket (spawn H s) = rocket (updateRocket H s)"
    using assms by (simp add: rocket_spawn updateRocket_cases l)
  have "r_y (rocket (gameLoop H False s)) = r_y (rocket (updateRocket H s)) \<and>
        velocity (rocket (gameLoop H False s)) = 0" if "gameRunning s"
    using trail_frame[OF trail_advance[of H "spawn H s"]] that
    by (simp add: gameLoop_running r) (simp add: u)
  moreover have "hasShield (rocket s) \<and> 1 < shieldTime (rocket s)"
    using assms(2) by (simp add: fallen_shield)
  ultimately show ?thesis
    by (auto simp add: u)
qed

lemma shieldedLowGame_falls:
  "outOfBounds shieldedLowGame (fallen (rocket shieldedLowGame))"
  "hasShield (fallen (rocket shieldedLowGame))" "gameRunning shieldedLowGame"
  "canvasHeight shieldedLowGame = 600" "r_height (rocket shieldedLowGame) = 40"
  "r_y (rocket shieldedLowGame) = 558" "velocity (rocket shieldedLowGame) = 5"
  "gravity (rocket shieldedLowGame) = 1 / 2"
  by (simp_all add: shieldedLowGame_def midGame_def outOfBounds_def fallen_shield
        initialRocket_def)

theorem shielded_rocket_is_clamped_witness:
  "outOfBounds shieldedLowGame (fallen (rocket shieldedLowGame)) \<and>
   hasShield (fallen (rocket shieldedLowGame)) \<and>
   gameRunning shieldedLowGame \<and>
   r_height (rocket shieldedLowGame) \<le> canvasHeight shieldedLowGame \<and>
   r_y (rocket (gameLoop plainHost False shieldedLowGame)) = 560 \<and>
   velocity (rocket (gameLoop plainHost False shieldedLowGame)) = 0"
  using shielded_rocket_is_clamped[of shieldedLowGame plainHost]
  by (simp add: shieldedLowGame_falls)

text \<open>
  C10. The round of \<open>updatePowerUps\<close> that finds a power-up not yet collected within reach
  of the rocket sets the shield flag and sets the shield timer to 300, whatever the flag and
  the timer were, and flags the power-up as collected. A round on a collected power-up
  leaves the state as it is, so a power-up has its effect at most once. A frame of a running
  game that collects a power-up of the list ends with the shield set and its timer at 300.
\<close>

theorem power_up_sets_the_shield:
  "(powerUpCollectedNow s pu \<longrightarrow>
      hasShield (rocket (snd (powerUpRound H pu s))) \<and>
      shieldTime (rocket (snd (powerUpRound H pu s))) = 300 \<and>
      fst (powerUpRound H pu s) =
        (if pu_x pu - scrollSpeed s < - pu_size pu then None
         else Some (pu\<lparr>pu_x := pu_x pu - scrollSpeed s, pu_collected := True\<rparr>))) \<and>
   (pu_collected pu \<longrightarrow> snd (powerUpRound H pu s) = s) \<and>
   (gameRunning s \<and> (\<exists>p \<in> set (powerUps (spawn H s)). powerUpCollectedNow (spawn H s) p) \<longrightarrow>
      hasShield (rocket (gameLoop H False s)) \<and>
      shieldTime (rocket (gameLoop H False s)) = 300)"
proof -
  have 1: "fst (powerUpRound H pu s) =
        (if pu_x pu - scrollSpeed s < - pu_size pu then None
         else Some (pu\<lparr>pu_x := pu_x pu - scrollSpeed s, pu_collected := True\<rparr>))"
    if "powerUpCollectedNow s pu"
    using that by (simp add: powerUpRound_left powerUpLeft_def)
  have 2: "snd (powerUpRound H pu s) = s" if "pu_collected pu"
    using that by (simp add: powerUpRound_def Let_def)
  have 3: "hasShield (rocket (gameLoop H False s)) \<and>
      shieldTime (rocket (gameLoop H False s)) = 300"
    if "gameRunning s" and "\<exists>p \<in> set (powerUps (spawn H s)). powerUpCollectedNow (spawn H s) p"
  proof -
    from that(2) have "0 < count (powerUpCollectedNow (spawn H s)) (powerUps (spawn H s))"
      by (simp add: count_pos_iff)
    then show ?thesis
      using that(1) by (simp add: gameLoop_running advance_fields)
  qed
  from 1 2 3 show ?thesis
    by (simp add: powerUpRound_fields)
qed

lemma shieldedGame_collects:
  "powerUpCollectedNow shieldedGame nearPowerUp"
  by (simp add: shieldedGame_def midGame_def powerUpCollectedNow_def scrollSpeed_def
        obstacleSpeed_def initialRocket_def nearPowerUp_def hypot_less_iff power2_eq_square)

theorem power_up_sets_the_shield_witness:
  "powerUpCollectedNow shieldedGame nearPowerUp \<and>
   shieldTime (rocket shieldedGame) = 100 \<and>
   hasShield (rocket (snd (powerUpRound plainHost nearPowerUp shieldedGame))) \<and>
   shieldTime (rocket (snd (powerUpRound plainHost nearPowerUp shieldedGame))) = 300 \<and>
   fst (powerUpRound plainHost nearPowerUp shieldedGame) =
     Some (nearPowerUp\<lparr>pu_x := 120, pu_collected := True\<rparr>) \<and>
   pu_collected spentPowerUp \<and>
   snd (powerUpRound plainHost spentPowerUp shieldedGame) = shieldedGame \<and>
   gameRunning midGame \<and>
   nearPowerUp \<in> set (powerUps (spawn plainHost midGame)) \<and>
   powerUpCollectedNow (spawn plainHost midGame) nearPowerUp \<and>
   hasShield (rocket (gameLoop plainHost False midGame)) \<and>
   shieldTime (rocket (gameLoop plainHost False midGame)) = 300"
proof -
  have "shieldTime (rocket shieldedGame) = 100"
    by (simp add: shieldedGame_def initialRocket_def)
  moreover have "scrollSpeed shieldedGame = 4" "pu_x nearPowerUp = 124" "pu_size nearPowerUp = 20"
    by (simp_all add: shieldedGame_def midGame_def scrollSpeed_def obstacleSpeed_def
          nearPowerUp_def)
  moreover have "pu_collected spentPowerUp"
    by (simp add: spentPowerUp_def)
  moreover have "\<exists>p \<in> set (powerUps (spawn plainHost midGame)).
      powerUpCollectedNow (spawn plainHost midGame) p"
    by (simp add: midGame_spawn midGame_finds)
  ultimately show ?thesis
    using power_up_sets_the_shield[of shieldedGame nearPowerUp plainHost]
      power_up_sets_the_shield[of shieldedGame spentPowerUp plainHost]
      power_up_sets_the_shield[of midGame nearPowerUp plainHost]
    by (simp add: shieldedGame_collects midGame_fields midGame_spawn midGame_finds)
qed

subsection \<open>The high score\<close>

lemma settled_cong:
  assumes "gameRunning a = gameRunning b" and "score a = score b"
    and "highScore a = highScore b" and "elements a ''finalScore'' = elements b ''finalScore''"
  shows "settled h a = settled h b"
  using assms by (auto simp add: settled_def finalText_def split: option.splits)

lemma quiet_settled: "quiet u v \<Longrightarrow> settled h v = settled h u"
  by (rule settled_cong) (simp_all add: quiet_def)

lemma points_settled: "0 \<le> n \<Longrightarrow> settled h u \<Longrightarrow> settled h (u\<lparr>score := score u + n\<rparr>)"
  by (auto simp add: settled_def finalText_def split: option.splits if_splits)

lemma rocket_settled: "settled h (u\<lparr>rocket := r\<rparr>) = settled h u"
  by (rule settled_cong) simp_all

lemma endGame_settled:
  assumes "elements u ''finalScore'' \<noteq> None" and "settled h u"
  shows "settled h (endGame H u)"
proof -
  have "highScore (endGame H u) = max h (score u)"
    using assms(2) by (auto simp add: settled_def endGame_fields split: if_splits option.splits)
  with assms(1) show ?thesis
    by (simp add: settled_def endGame_fields finalText_endGame)
qed

lemma trail_settled:
  assumes "elements s ''finalScore'' \<noteq> None" and "settled h s"
  shows "trail H s u \<Longrightarrow> settled h u \<and> elements u ''finalScore'' \<noteq> None"
proof (induction rule: trail.induct)
  case start
  from assms show ?case by simp
next
  case (still u v)
  then show ?case by (simp add: quiet_settled) (simp add: quiet_def)
next
  case (points u n)
  then show ?case by (simp add: points_settled)
next
  case (shield u b k)
  then show ?case by (simp add: rocket_settled)
next
  case (over u)
  then show ?case by (simp add: endGame_settled dom_final_endGame)
qed

lemma trail_persisted: "trail H s u \<Longrightarrow> persisted s \<Longrightarrow> persisted u"
proof (induction rule: trail.induct)
  case (over u)
  then show ?case by (simp add: persisted_def endGame_fields loadHighScore_def)
qed (simp_all add: persisted_def quiet_def)

lemma trail_record:
  assumes "trail H s u"
  shows "highScore s \<le> highScore u \<and>
         (highScore u = highScore s \<and> storage u = storage s \<or>
          score s \<le> highScore u \<and> highScore u \<le> score u \<and> storage u = Some (highScore u))"
  using assms
proof (induction rule: trail.induct)
  case (over u)
  moreover have "score s \<le> score u"
    using over.hyps by (rule trail_score)
  ultimately show ?case
    by (auto simp add: endGame_fields)
qed (auto simp add: quiet_def)

lemma settled_base: "settled h (base H s) = settled h s"
  by (rule settled_cong) simp_all

lemma persisted_base: "persisted (base H s) = persisted s"
  by (simp add: persisted_def)

lemma gameLoop_settled:
  assumes "elements s ''finalScore'' \<noteq> None" and "settled h s"
  shows "settled h (gameLoop H hid s) \<and> elements (gameLoop H hid s) ''finalScore'' \<noteq> None"
proof (cases "gameRunning s \<and> \<not> hid")
  case True
  then have "trail H (base H s) (gameLoop H hid s)"
    using trail_gameLoop[of s H] by simp
  with assms show ?thesis
    by (intro trail_settled[of "base H s" h H]) (simp_all add: settled_base)
next
  case False
  then have "gameLoop H hid s = s"
    by (auto simp add: gameLoop_def)
  with assms show ?thesis by simp
qed

lemma gameLoop_persisted: "persisted s \<Longrightarrow> persisted (gameLoop H hid s)"
proof (cases "gameRunning s \<and> \<not> hid")
  case True
  assume "persisted s"
  moreover from True have "trail H (base H s) (gameLoop H hid s)"
    using trail_gameLoop[of s H] by simp
  ultimately show ?thesis
    using trail_persisted[of H "base H s"] by (simp add: persisted_base)
next
  case False
  assume "persisted s"
  moreover from False have "gameLoop H hid s = s"
    by (auto simp add: gameLoop_def)
  ultimately show ?thesis by simp
qed

lemma boost_fields:
  assumes "gameRunning s"
  shows "quiet (s\<lparr>rocket := (rocket s)\<lparr>velocity := boost (rocket s)\<rparr>\<rparr>) (handleInput H hid s)"
  using assms by (simp add: handleInput_def createBoostParticles_def quiet_def)

lemma happen_settled:
  assumes "elements s ''finalScore'' \<noteq> None" and "settled h s"
  shows "settled h (happen H e s) \<and> elements (happen H e s) ''finalScore'' \<noteq> None"
proof (cases e)
  case (Frame hid)
  with assms show ?thesis by (simp add: gameLoop_settled)
next
  case Press
  show ?thesis
  proof (cases "gameRunning s")
    case True
    from boost_fields[OF True, of H False] assms show ?thesis
      by (simp add: Press True quiet_def settled_def finalText_def)
  next
    case False
    with assms show ?thesis by (simp add: Press)
  qed
qed

lemma happen_persisted: "persisted s \<Longrightarrow> persisted (happen H e s)"
proof (cases e)
  case (Frame hid)
  assume "persisted s"
  then show ?thesis by (simp add: Frame gameLoop_persisted)
next
  case Press
  assume p: "persisted s"
  show ?thesis
  proof (cases "gameRunning s")
    case True
    from boost_fields[OF True, of H False] p show ?thesis
      by (simp add: Press True quiet_def persisted_def)
  next
    case False
    with p show ?thesis by (simp add: Press)
  qed
qed

lemma session_settled:
  "elements s ''finalScore'' \<noteq> None \<Longrightarrow> settled h s \<Longrightarrow> settled h (session H es s)"
proof (induction es arbitrary: s)
  case Nil
  then show ?case by simp
next
  case (Cons e es)
  from happen_settled[OF Cons.prems, of H e] show ?case
    by (simp add: Cons.IH)
qed

lemma session_persisted: "persisted s \<Longrightarrow> persisted (session H es s)"
  by (induction es arbitrary: s) (simp_all add: happen_persisted)

text \<open>The state \<open>startGame\<close> hands to its first frame.\<close>

lemma startGame_split:
  "startGame H hid s =
     gameLoop H hid (setDisplay ''gameOverScreen'' ''none'' ((resetGame s)\<lparr>gameRunning := True\<rparr>))"
  by (simp add: startGame_def Let_def)

lemma startGame_settled:
  assumes "elements s ''finalScore'' \<noteq> None"
  shows "settled (highScore s) (startGame H hid s) \<and> elements (startGame H hid s) ''finalScore'' \<noteq> None"
  unfolding startGame_split
proof (rule gameLoop_settled)
  show "elements (setDisplay ''gameOverScreen'' ''none'' ((resetGame s)\<lparr>gameRunning := True\<rparr>))
          ''finalScore'' \<noteq> None"
    using assms by (simp add: dom_final_setDisplay resetGame_def)
  show "settled (highScore s)
          (setDisplay ''gameOverScreen'' ''none'' ((resetGame s)\<lparr>gameRunning := True\<rparr>))"
    by (simp add: settled_def resetGame_def)
qed

lemma startGame_persisted: "persisted s \<Longrightarrow> persisted (startGame H hid s)"
  unfolding startGame_split
  by (rule gameLoop_persisted) (simp add: persisted_def resetGame_def)

subsection \<open>Frames without a collision in the loops\<close>

lemma obstacleRound_miss:
  "\<not> obstacleHitNow s ob \<Longrightarrow>
     snd (obstacleRound H ob s) =
       (if obstaclePassedNow s ob then s\<lparr>score := score s + 50\<rparr> else s)"
  by (simp add: obstacleRound_def Let_def obstacleHitNow_def obstaclePassedNow_def)

lemma obstaclesLoop_miss:
  "count (obstacleHitNow s) obs = 0 \<Longrightarrow>
     snd (obstaclesLoop H obs s) = s\<lparr>score := score s + 50 * count (obstaclePassedNow s) obs\<rparr>"
proof (induction obs)
  case Nil
  show ?case by simp
next
  case (Cons ob obs)
  have n: "0 \<le> count (obstacleHitNow s) obs"
    by (rule count_nonneg)
  with Cons.prems have h: "\<not> obstacleHitNow s ob" and c: "count (obstacleHitNow s) obs = 0"
    by (auto split: if_splits)
  let ?s1 = "s\<lparr>score := score s + 50 * count (obstaclePassedNow s) obs\<rparr>"
  have l: "snd (obstaclesLoop H obs s) = ?s1"
    using Cons.IH c by simp
  have v: "obstacleHitNow ?s1 = obstacleHitNow s" "obstaclePassedNow ?s1 = obstaclePassedNow s"
    by (simp_all add: fun_eq_iff obstacleHitNow_def obstaclePassedNow_def scrollSpeed_def)
  have "snd (obstaclesLoop H (ob # obs) s) = snd (obstacleRound H ob ?s1)"
    using l by (cases "obstaclesLoop H obs s"; cases "obstacleRound H ob ?s1")
      (simp split: option.splits)
  also have "\<dots> = (if obstaclePassedNow s ob then ?s1\<lparr>score := score ?s1 + 50\<rparr> else ?s1)"
    using h by (simp add: obstacleRound_miss v)
  finally show ?case
    by simp
qed

lemma loops_miss:
  assumes "count (obstacleHitNow s) (obstacles s) = 0"
  shows "highScore (loops H s) = highScore s" "storage (loops H s) = storage s"
    "elements (loops H s) ''finalScore'' = elements s ''finalScore''"
proof -
  let ?s1 = "updateObstacles H s"
  let ?s2 = "updateStars H ?s1"
  obtain sc ps k where
    a: "snd (starsLoop H (stars ?s1) ?s1) = ?s1\<lparr>score := sc, particles := ps, rng := k\<rparr>"
    using starsLoop_frame by blast
  obtain r ps' k' where
    b: "snd (powerUpsLoop H (powerUps ?s2) ?s2) = ?s2\<lparr>rocket := r, particles := ps', rng := k'\<rparr>"
    using powerUpsLoop_frame by blast
  let ?s3 = "updatePowerUps H ?s2"
  have 1: "highScore ?s1 = highScore s \<and> storage ?s1 = storage s \<and>
           elements ?s1 ''finalScore'' = elements s ''finalScore''"
    by (simp add: updateObstacles_unfold[of H s] obstaclesLoop_miss[OF assms, of H])
  have 2: "highScore ?s2 = highScore ?s1 \<and> storage ?s2 = storage ?s1 \<and>
           elements ?s2 ''finalScore'' = elements ?s1 ''finalScore''"
    by (simp add: updateStars_unfold[of H ?s1] a)
  have 3: "highScore ?s3 = highScore ?s2 \<and> storage ?s3 = storage ?s2 \<and>
           elements ?s3 ''finalScore'' = elements ?s2 ''finalScore''"
    by (simp add: updatePowerUps_unfold[of H ?s2] b)
  have 4: "highScore (loops H s) = highScore ?s3 \<and> storage (loops H s) = storage ?s3 \<and>
           elements (loops H s) ''finalScore'' = elements ?s3 ''finalScore''"
    by (simp add: loops_def updateConfetti_def updateParticles_def)
  from 1 2 3 4 show "highScore (loops H s) = highScore s" by simp
  from 1 2 3 4 show "storage (loops H s) = storage s" by simp
  from 1 2 3 4 show "elements (loops H s) ''finalScore'' = elements s ''finalScore''" by simp
qed

lemma advance_miss:
  assumes "count (obstacleHitNow s) (obstacles s) = 0"
  shows "highScore (advance H s) = highScore s" "storage (advance H s) = storage s"
    "finalText (advance H s) = finalText s"
  using loops_miss[OF assms, of H]
  by (simp_all add: advance_loops requestAnimationFrame_def finalText_def
        dom_final_updateScoreDisplay)

lemma spawners_lists:
  "obstacles (spawners H s) =
     (if onCadence (frameCount s) (spawnPeriod (level s))
      then obstacles (createObstacle H s) else obstacles s)"
  "\<not> onCadence (frameCount s) 80 \<Longrightarrow> stars (spawners H s) = stars s"
  "\<not> onCadence (frameCount s) 300 \<Longrightarrow> powerUps (spawners H s) = powerUps s"
  by (simp_all add: spawners_def Let_def createObstacle_def createStar_def createPowerUp_def)

lemma updateRocket_lists:
  "obstacles (updateRocket H s) = obstacles s" "stars (updateRocket H s) = stars s"
  "powerUps (updateRocket H s) = powerUps s" "frameCount (updateRocket H s) = frameCount s"
  "level (updateRocket H s) = level s"
  by (simp_all add: updateRocket_cases endGame_fields)

lemma levelled_fields:
  "frameCount (levelled s) = frameCount s + 1" "level (levelled s) = levelOf (score s)"
  "obstacles (levelled s) = obstacles s" "stars (levelled s) = stars s"
  "powerUps (levelled s) = powerUps s" "rocket (levelled s) = rocket s"
  "canvasHeight (levelled s) = canvasHeight s" "score (levelled s) = score s"
  by (simp_all add: levelled_def)

lemma spawn_lists:
  "\<not> onCadence (frameCount s + 1) (spawnPeriod (levelOf (score s))) \<Longrightarrow>
     obstacles (spawn H s) = obstacles s"
  "\<not> onCadence (frameCount s + 1) 80 \<Longrightarrow> stars (spawn H s) = stars s"
  "\<not> onCadence (frameCount s + 1) 300 \<Longrightarrow> powerUps (spawn H s) = powerUps s"
  by (simp_all add: spawn_split spawners_lists updateRocket_lists levelled_fields)

text \<open>The frame in which the rocket falls out of the canvas, when it overlaps no obstacle.\<close>

lemma floor_frame:
  assumes "gameRunning s"
    and "outOfBounds s (fallen (rocket s))" and "\<not> hasShield (fallen (rocket s))"
    and "count (obstacleHitNow (spawn H s)) (obstacles (spawn H s)) = 0"
  shows "highScore (gameLoop H False s) = max (highScore s) (score s)"
    "storage (gameLoop H False s) = (if score s > highScore s then Some (score s) else storage s)"
    "finalText (gameLoop H False s) =
       (if elements s ''finalScore'' = None then None else Some (score s))"
proof -
  let ?e = "endGame H ((levelled s)\<lparr>rocket := fallen (rocket s)\<rparr>)"
  have l: "outOfBounds (levelled s) r = outOfBounds s r" "rocket (levelled s) = rocket s" for r
    by (simp_all add: outOfBounds_def levelled_def)
  have u: "updateRocket H (levelled s) = ?e"
    using assms(2,3) by (simp add: updateRocket_cases l)
  have q: "quiet ?e (spawn H s)"
    unfolding spawn_split u by (rule quiet_spawners)
  have e: "highScore ?e = max (highScore s) (score s)"
    "storage ?e = (if score s > highScore s then Some (score s) else storage s)"
    "finalText ?e = (if elements s ''finalScore'' = None then None else Some (score s))"
    by (simp_all add: endGame_fields finalText_endGame levelled_def)
  have f: "finalText (spawn H s) = finalText ?e"
    using q by (simp add: quiet_def finalText_def)
  show "highScore (gameLoop H False s) = max (highScore s) (score s)"
    using q e(1) by (simp add: gameLoop_running assms(1) advance_miss[OF assms(4)] quiet_def)
  show "storage (gameLoop H False s) =
      (if score s > highScore s then Some (score s) else storage s)"
    using q e(2) by (simp add: gameLoop_running assms(1) advance_miss[OF assms(4)] quiet_def)
  show "finalText (gameLoop H False s) =
       (if elements s ''finalScore'' = None then None else Some (score s))"
    using f e(3) by (simp add: gameLoop_running assms(1) advance_miss[OF assms(4)])
qed

text \<open>
  C7. \<open>endGame\<close> sets the high score to the larger of the high score and the score it
  finds, which is the number it shows as the final score, and the storage then holds that
  high score if it held the high score before. So in a session, from \<open>startGame\<close> through
  any frames and presses, the high score is the one from before the session while the game
  runs, and once the game is over it is the larger of that and the final score shown; the
  storage keeps holding it. \<open>stopGame\<close> leaves the high score and the storage as they are.
\<close>

theorem high_score_after_game_over:
  "highScore (endGame H s) = max (highScore s) (score s) \<and>
   (persisted s \<longrightarrow> loadHighScore (storage (endGame H s)) = max (highScore s) (score s)) \<and>
   (elements s ''finalScore'' \<noteq> None \<longrightarrow>
      finalText (endGame H s) = Some (score s) \<and>
      settled (highScore s) (session H es (startGame H hid s))) \<and>
   (persisted s \<longrightarrow> persisted (session H es (startGame H hid s))) \<and>
   highScore (stopGame s) = highScore s \<and> storage (stopGame s) = storage s"
proof -
  have "loadHighScore (storage (endGame H s)) = max (highScore s) (score s)" if "persisted s"
    using that by (simp add: persisted_def endGame_fields loadHighScore_def)
  moreover have "settled (highScore s) (session H es (startGame H hid s))"
    if "elements s ''finalScore'' \<noteq> None"
    using startGame_settled[OF that, of H hid] by (simp add: session_settled)
  ultimately show ?thesis
    by (simp add: endGame_fields finalText_endGame stopGame_def session_persisted
          startGame_persisted)
qed

lemma tinyPage_fields:
  "highScore tinyPage = 0" "loadHighScore (storage tinyPage) = 0"
  "elements tinyPage ''finalScore'' \<noteq> None"
  by (simp_all add: tinyPage_def initGame_def Let_def resetGame_def loadHighScore_def
        dom_final_updateScoreDisplay page_def)

lemma tinyStart_fields:
  "gameRunning tinyStart" "score tinyStart = 1" "highScore tinyStart = 0"
  "storage tinyStart = None" "obstacles tinyStart = []" "stars tinyStart = []"
  "canvasHeight tinyStart = 81" "frameCount tinyStart = 1"
  "elements tinyStart ''finalScore'' = Some \<lparr>textContent = None, display = []\<rparr>"
  by code_simp+

lemma tinyStart_rocket:
  "rocket tinyStart = initialRocket\<lparr>r_y := 41, velocity := 1 / 2, rotation := 1 / 40\<rparr>"
  by code_simp

lemma tinyStart_falls:
  "outOfBounds tinyStart (fallen (rocket tinyStart))" "\<not> hasShield (fallen (rocket tinyStart))"
  "obstacles (spawn plainHost tinyStart) = []" "stars (spawn plainHost tinyStart) = []"
  by (simp_all add: outOfBounds_def fallen_shield spawn_lists tinyStart_fields tinyStart_rocket
        initialRocket_def onCadence_def js_rem_def spawnPeriod_def levelOf_def
        obstacleFrequency_def)

lemma tinyOver_fields:
  "\<not> gameRunning tinyOver" "finalText tinyOver = Some 1" "score tinyOver = 2"
proof -
  have o: "tinyOver = gameLoop plainHost False tinyStart"
    by (simp add: tinyOver_def tinyStart_def)
  have c: "count (obstacleHitNow (spawn plainHost tinyStart)) (obstacles (spawn plainHost tinyStart)) = 0"
    by (simp add: tinyStart_falls)
  show "\<not> gameRunning tinyOver"
    by (simp add: o gameLoop_running tinyStart_fields advance_fields spawn_fields tinyStart_falls)
  show "finalText tinyOver = Some 1"
    unfolding o using floor_frame(3)[OF tinyStart_fields(1) tinyStart_falls(1,2) c]
    by (simp add: tinyStart_fields)
  show "score tinyOver = 2"
    by (simp add: o gameLoop_running tinyStart_fields advance_fields spawn_fields tinyStart_falls)
qed

theorem high_score_after_game_over_witness:
  "persisted tinyPage \<and> elements tinyPage ''finalScore'' \<noteq> None \<and>
   highScore tinyPage = 0 \<and>
   \<not> gameRunning tinyOver \<and> finalText tinyOver = Some 1 \<and> score tinyOver = 2 \<and>
   highScore tinyOver = 1 \<and> loadHighScore (storage tinyOver) = 1"
proof -
  note th = high_score_after_game_over[of plainHost tinyPage "[Frame False]" False,
      folded tinyOver_def]
  have p: "persisted tinyPage"
    by (simp add: persisted_def tinyPage_fields)
  from th p have s: "settled 0 tinyOver" and q: "persisted tinyOver"
    by (simp_all add: tinyPage_fields)
  note f = tinyOver_fields
  from s f have h: "highScore tinyOver = 1"
    by (simp add: settled_def)
  with q have "loadHighScore (storage tinyOver) = 1"
    by (simp add: persisted_def)
  with p f h show ?thesis
    by (simp add: tinyPage_fields)
qed

lemma lowGame_fields:
  "gameRunning lowGame" "score lowGame = 1000" "highScore lowGame = 0"
  "frameCount lowGame = 2000" "obstacles lowGame = [nearObstacle]" "stars lowGame = [nearStar]"
  "gameRunning lowQuiet" "score lowQuiet = 1000" "highScore lowQuiet = 0"
  "frameCount lowQuiet = 2000" "obstacles lowQuiet = []" "stars lowQuiet = [nearStar]"
  "rocket lowQuiet = rocket lowGame" "canvasHeight lowQuiet = canvasHeight lowGame"
  by (simp_all add: lowQuiet_def lowGame_def midGame_def)

lemma lowGame_spawn:
  "obstacles (spawn H lowGame) = [nearObstacle]" "stars (spawn H lowGame) = [nearStar]"
  "obstacles (spawn H lowQuiet) = []" "stars (spawn H lowQuiet) = [nearStar]"
  "rocket (spawn H lowGame) = fallen (rocket lowGame)"
  "rocket (spawn H lowQuiet) = fallen (rocket lowGame)"
  "outOfBounds lowQuiet (fallen (rocket lowQuiet))" "\<not> hasShield (fallen (rocket lowQuiet))"
  "outOfBounds lowQuiet (fallen (rocket lowGame))"
  using lowGame_falls
  by (simp_all add: spawn_lists rocket_spawn_cases lowGame_fields onCadence_def js_rem_def
        spawnPeriod_def levelOf_def obstacleFrequency_def outOfBounds_def)

lemma lowGame_finds:
  "obstaclePassedNow (spawn H lowGame) nearObstacle"
  "\<not> obstacleHitNow (spawn H lowGame) nearObstacle"
  "\<not> starCollectedNow (spawn H lowGame) nearStar"
  "\<not> starCollectedNow (spawn H lowQuiet) nearStar"
  by (simp_all add: obstaclePassedNow_def obstacleHitNow_def starCollectedNow_def
        checkCollision_def scrollSpeed_def spawn_fields lowGame_spawn lowGame_fields
        hypot_less_iff obstacleSpeed_def levelOf_def nearObstacle_def nearStar_def
        power2_eq_square)
    (simp_all add: lowGame_def initialRocket_def)

lemma lowGame_over:
  "\<not> gameRunning (gameLoop H False lowGame)"
  "score (gameLoop H False lowGame) = 1051"
  "highScore (gameLoop H False lowGame) = 1000"
  "storage (gameLoop H False lowGame) = Some 1000"
  "\<not> gameRunning (gameLoop H False lowQuiet)"
  "score (gameLoop H False lowQuiet) = 1001"
  "highScore (gameLoop H False lowQuiet) = 1000"
proof -
  have c: "count (obstacleHitNow (spawn H lowGame)) (obstacles (spawn H lowGame)) = 0"
    "count (obstacleHitNow (spawn H lowQuiet)) (obstacles (spawn H lowQuiet)) = 0"
    by (simp_all add: lowGame_spawn lowGame_finds)
  note f = floor_frame[OF lowGame_fields(1) lowGame_falls(1,2) c(1)]
    floor_frame[OF lowGame_fields(7) lowGame_spawn(7,8) c(2)]
  show "\<not> gameRunning (gameLoop H False lowGame)"
    by (simp add: gameLoop_running lowGame_fields advance_fields spawn_fields lowGame_falls)
  show "score (gameLoop H False lowGame) = 1051"
    by (simp add: gameLoop_running lowGame_fields advance_fields spawn_fields lowGame_spawn
          lowGame_finds)
  show "highScore (gameLoop H False lowGame) = 1000"
    by (simp add: f lowGame_fields)
  show "storage (gameLoop H False lowGame) = Some 1000"
    by (simp add: f lowGame_fields)
  show "\<not> gameRunning (gameLoop H False lowQuiet)"
    by (simp add: gameLoop_running lowGame_fields(7-) advance_fields spawn_fields
          lowGame_spawn lowGame_falls)
  show "score (gameLoop H False lowQuiet) = 1001"
    by (simp add: gameLoop_running lowGame_fields(7-) advance_fields spawn_fields
          lowGame_spawn lowGame_finds)
  show "highScore (gameLoop H False lowQuiet) = 1000"
    by (simp add: f lowGame_fields)
qed

text \<open>
  C8 (as amended). The frame in which the game ends runs to its end like any other: the
  score still gets the point of the frame, the 50 for each obstacle passed and the 100 for
  each star collected in it, and the three lists are moved and pruned. When that frame sets
  a new high score, the storage holds it, and the score at the end of the frame is larger
  than it by at least 1; by exactly 1 when the frame passes no obstacle and collects no
  star.
\<close>

theorem game_over_frame_runs_on:
  assumes "gameRunning s" and "\<not> gameRunning (gameLoop H False s)"
  shows "score (gameLoop H False s) =
           score s + 1
           + 50 * count (obstaclePassedNow (spawn H s)) (obstacles (spawn H s))
           + 100 * count (starCollectedNow (spawn H s)) (stars (spawn H s)) \<and>
         obstacles (gameLoop H False s) =
           List.map_filter (obstacleLeft (spawn H s)) (obstacles (spawn H s)) \<and>
         stars (gameLoop H False s) =
           List.map_filter (starLeft (spawn H s)) (stars (spawn H s)) \<and>
         powerUps (gameLoop H False s) =
           List.map_filter (powerUpLeft (spawn H s)) (powerUps (spawn H s)) \<and>
         (highScore s < highScore (gameLoop H False s) \<longrightarrow>
            storage (gameLoop H False s) = Some (highScore (gameLoop H False s)) \<and>
            highScore (gameLoop H False s) + 1 \<le> score (gameLoop H False s) \<and>
            (count (obstaclePassedNow (spawn H s)) (obstacles (spawn H s)) = 0 \<and>
             count (starCollectedNow (spawn H s)) (stars (spawn H s)) = 0 \<longrightarrow>
               score (gameLoop H False s) = highScore (gameLoop H False s) + 1))"
proof -
  let ?t = "spawn H s"
  let ?w = "loops H ?t"
  have g: "gameLoop H False s = advance H ?t"
    using assms(1) by (rule gameLoop_running)
  have sc: "score (gameLoop H False s) =
           score s + 1 + 50 * count (obstaclePassedNow ?t) (obstacles ?t)
           + 100 * count (starCollectedNow ?t) (stars ?t)"
    by (simp add: g advance_fields spawn_fields)
  have w: "score (gameLoop H False s) = score ?w + 1"
    "highScore (gameLoop H False s) = highScore ?w" "storage (gameLoop H False s) = storage ?w"
    by (simp_all add: g advance_loops requestAnimationFrame_def)
  have "trail H (base H s) ?w"
    by (rule trail_trans[OF trail_spawn trail_loops])
  from trail_record[OF this]
  have r: "highScore ?w = highScore s \<or>
      score s \<le> highScore ?w \<and> highScore ?w \<le> score ?w \<and> storage ?w = Some (highScore ?w)"
    by auto
  have "storage (gameLoop H False s) = Some (highScore (gameLoop H False s)) \<and>
        highScore (gameLoop H False s) + 1 \<le> score (gameLoop H False s) \<and>
        (count (obstaclePassedNow ?t) (obstacles ?t) = 0 \<and>
         count (starCollectedNow ?t) (stars ?t) = 0 \<longrightarrow>
           score (gameLoop H False s) = highScore (gameLoop H False s) + 1)"
    if "highScore s < highScore (gameLoop H False s)"
    using that r sc by (auto simp add: w)
  with sc show ?thesis
    by (simp add: g advance_lists)
qed

theorem game_over_frame_runs_on_witness:
  "gameRunning lowGame \<and> \<not> gameRunning (gameLoop plainHost False lowGame) \<and>
   highScore lowGame < highScore (gameLoop plainHost False lowGame) \<and>
   storage (gameLoop plainHost False lowGame) = Some (highScore (gameLoop plainHost False lowGame)) \<and>
   highScore (gameLoop plainHost False lowGame) + 1 \<le> score (gameLoop plainHost False lowGame) \<and>
   gameRunning lowQuiet \<and> \<not> gameRunning (gameLoop plainHost False lowQuiet) \<and>
   highScore lowQuiet < highScore (gameLoop plainHost False lowQuiet) \<and>
   count (obstaclePassedNow (spawn plainHost lowQuiet)) (obstacles (spawn plainHost lowQuiet)) = 0 \<and>
   count (starCollectedNow (spawn plainHost lowQuiet)) (stars (spawn plainHost lowQuiet)) = 0 \<and>
   score (gameLoop plainHost False lowQuiet) = highScore (gameLoop plainHost False lowQuiet) + 1"
  using game_over_frame_runs_on[of lowGame plainHost] game_over_frame_runs_on[of lowQuiet plainHost]
  by (simp add: lowGame_fields lowGame_over lowGame_spawn lowGame_finds)

theorem game_over_frame_with_a_passed_obstacle:
  "gameRunning lowGame \<and> \<not> gameRunning (gameLoop plainHost False lowGame) \<and>
   highScore lowGame = 0 \<and>
   highScore (gameLoop plainHost False lowGame) = 1000 \<and>
   storage (gameLoop plainHost False lowGame) = Some 1000 \<and>
   score (gameLoop plainHost False lowGame) = 1051 \<and>
   score (gameLoop plainHost False lowGame) \<noteq> highScore (gameLoop plainHost False lowGame) + 1"
  by (simp add: lowGame_fields lowGame_over)

subsection \<open>The level\<close>

lemma levelOf_mono: "a \<le> b \<Longrightarrow> levelOf a \<le> levelOf b"
  by (simp add: levelOf_def zdiv_mono1)

lemma gameLoop_level:
  assumes "gameRunning s"
  shows "level (gameLoop H False s) = levelOf (score s)"
    and "score s < score (gameLoop H False s)"
proof -
  have g: "gameLoop H False s = advance H (spawn H s)"
    using assms by (rule gameLoop_running)
  show "level (gameLoop H False s) = levelOf (score s)"
    using trail_frame(1)[OF trail_advance[of H "spawn H s"]] by (simp add: g spawn_fields)
  have "0 \<le> count (obstaclePassedNow (spawn H s)) (obstacles (spawn H s))"
    and "0 \<le> count (starCollectedNow (spawn H s)) (stars (spawn H s))"
    by (rule count_nonneg)+
  then show "score s < score (gameLoop H False s)"
    by (simp add: g advance_fields spawn_fields)
qed

lemma happen_level:
  assumes "level s \<le> levelOf (score s)"
  shows "level s \<le> level (happen H e s) \<and> level (happen H e s) \<le> levelOf (score (happen H e s))"
proof (cases e)
  case (Frame hid)
  show ?thesis
  proof (cases "gameRunning s \<and> \<not> hid")
    case True
    then have "level (gameLoop H hid s) = levelOf (score s)"
      and "score s < score (gameLoop H hid s)"
      using gameLoop_level[of s H] by simp_all
    with assms show ?thesis
      using levelOf_mono[of "score s" "score (gameLoop H hid s)"] by (simp add: Frame)
  next
    case False
    then have "gameLoop H hid s = s"
      by (auto simp add: gameLoop_def)
    with assms show ?thesis by (simp add: Frame)
  qed
next
  case Press
  show ?thesis
  proof (cases "gameRunning s")
    case True
    from boost_fields[OF True, of H False] assms show ?thesis
      by (simp add: Press True quiet_def)
  next
    case False
    with assms show ?thesis by (simp add: Press)
  qed
qed

lemma session_level:
  "level s \<le> levelOf (score s) \<Longrightarrow>
     level s \<le> level (session H es s) \<and>
     level (session H es s) \<le> levelOf (score (session H es s))"
proof (induction es arbitrary: s)
  case Nil
  then show ?case by simp
next
  case (Cons e es)
  from happen_level[OF Cons.prems, of H e]
  have 1: "level s \<le> level (happen H e s)"
    and 2: "level (happen H e s) \<le> levelOf (score (happen H e s))"
    by simp_all
  from Cons.IH[OF 2] 1 show ?case
    by simp
qed

lemma startGame_level: "level (startGame H hid s) \<le> levelOf (score (startGame H hid s))"
proof -
  let ?u = "setDisplay ''gameOverScreen'' ''none'' ((resetGame s)\<lparr>gameRunning := True\<rparr>)"
  have "level ?u \<le> levelOf (score ?u)"
    by (simp add: resetGame_def levelOf_def)
  from happen_level[OF this, of H "Frame hid"] show ?thesis
    by (simp add: startGame_split)
qed

text \<open>
  C4 (as amended). A frame of a running game sets the level to \<open>floor(score / 500) + 1\<close> for
  the score it starts with, and adds its points afterwards: at the end of the frame the
  level is that of the score before the frame, which is at most that of the score after it
  (and less when the points of the frame take the score across a multiple of 500). The
  level is never above \<open>floor(score / 500) + 1\<close> in a session and never decreases in it, from
  \<open>startGame\<close> through any frames and presses.
\<close>

theorem level_follows_the_score_of_the_frame_before:
  "(gameRunning s \<longrightarrow>
      level (gameLoop H False s) = levelOf (score s) \<and>
      level (gameLoop H False s) \<le> levelOf (score (gameLoop H False s))) \<and>
   (level s \<le> levelOf (score s) \<longrightarrow>
      level s \<le> level (happen H e s) \<and>
      level (happen H e s) \<le> levelOf (score (happen H e s))) \<and>
   level (startGame H hid s) \<le> levelOf (score (startGame H hid s)) \<and>
   level (startGame H hid s) \<le> level (session H es (startGame H hid s)) \<and>
   level (session H es (startGame H hid s)) \<le> level (session H (es @ es') (startGame H hid s))"
proof -
  have 1: "level (gameLoop H False s) = levelOf (score s) \<and>
      level (gameLoop H False s) \<le> levelOf (score (gameLoop H False s))" if "gameRunning s"
    using gameLoop_level[OF that, of H] levelOf_mono[of "score s" "score (gameLoop H False s)"]
    by simp
  have a: "session H (es @ es') u = session H es' (session H es u)" for u
    by (induction es arbitrary: u) simp_all
  note i = session_level[where s = "startGame H hid s" and H = H and es = es, OF startGame_level]
  from i have "level (session H es (startGame H hid s)) \<le>
      level (session H es' (session H es (startGame H hid s)))"
    using session_level[of "session H es (startGame H hid s)" H es'] by simp
  moreover note 1 i happen_level[of s H e] startGame_level[of H hid s]
  ultimately show ?thesis
    unfolding a by blast
qed

theorem level_follows_the_score_of_the_frame_before_witness:
  "gameRunning midGame \<and> level midGame \<le> levelOf (score midGame) \<and>
   level (gameLoop plainHost False midGame) = 3 \<and>
   score (gameLoop plainHost False midGame) = 1151 \<and>
   level midGame \<le> level (happen plainHost (Frame False) midGame)"
proof -
  have "level midGame = 3"
    by (simp add: midGame_def)
  moreover have "score (gameLoop plainHost False midGame) = 1151"
    by (simp add: gameLoop_running midGame_fields advance_fields spawn_fields midGame_spawn
          midGame_finds)
  ultimately show ?thesis
    using level_follows_the_score_of_the_frame_before[of midGame plainHost "Frame False"]
    by (simp add: midGame_fields levelOf_def)
qed

subsection \<open>Calm frames\<close>

lemma uneventful_frame:
  assumes "gameRunning s" and "uneventful H s"
  shows "gameRunning (gameLoop H False s)" and "score (gameLoop H False s) = score s + 1"
  using assms
  by (simp_all add: uneventful_def gameLoop_running advance_fields spawn_fields)

lemma calm_run:
  assumes "gameRunning s" and "calm H n s"
  shows "gameRunning (session H (replicate n (Frame False)) s) \<and>
         score (session H (replicate n (Frame False)) s) = score s + int n \<and>
         (0 < n \<longrightarrow>
            level (session H (replicate n (Frame False)) s) = levelOf (score s + int n - 1))"
  using assms
proof (induction n arbitrary: s)
  case 0
  then show ?case by simp
next
  case (Suc n)
  let ?s' = "gameLoop H False s"
  from Suc.prems have u: "uneventful H s" and c: "calm H n ?s'"
    by simp_all
  note f = uneventful_frame[OF Suc.prems(1) u]
  note l = gameLoop_level(1)[OF Suc.prems(1), of H]
  from Suc.IH[OF f(1) c] show ?case
    by (cases n) (simp_all add: f l)
qed

lemma startGame_hidden:
  "startGame H True s = setDisplay ''gameOverScreen'' ''none'' ((resetGame s)\<lparr>gameRunning := True\<rparr>)"
  "startGame H False s = gameLoop H False (startGame H True s)"
  by (simp_all add: startGame_split gameLoop_def)

lemma startGame_hidden_fields:
  "gameRunning (startGame H True s)" "score (startGame H True s) = 0"
  "level (startGame H True s) = 1" "frameCount (startGame H True s) = 0"
  "obstacles (startGame H True s) = []" "stars (startGame H True s) = []"
  "powerUps (startGame H True s) = []" "canvasWidth (startGame H True s) = canvasWidth s"
  "canvasHeight (startGame H True s) = canvasHeight s"
  "rocket (startGame H True s) =
     (rocket s)\<lparr>r_y := canvasHeight s / 2, velocity := 0, hasShield := False, shieldTime := 0\<rparr>"
  by (simp_all add: startGame_hidden resetGame_def)

text \<open>
  C5 (as amended). After \<open>startGame\<close> and \<open>n\<close> frames, \<open>n\<close> at least 1, in which the rocket
  stays on the canvas, overlaps no obstacle, passes none and collects no star, the game is
  running, the score is \<open>n\<close> and the level is \<open>floor((n - 1) / 500) + 1\<close>: the level of the
  score the last frame started with. So 500 frames give the score 500 and the level 1, and
  the level 2 comes with frame 501 and the score 501. \<open>startGame\<close> runs the first of these
  frames itself when the document is visible.
\<close>

theorem calm_frames_count:
  assumes "calm H n (startGame H True s)" and "0 < n"
  shows "score (session H (replicate n (Frame False)) (startGame H True s)) = int n \<and>
         level (session H (replicate n (Frame False)) (startGame H True s)) = levelOf (int n - 1) \<and>
         gameRunning (session H (replicate n (Frame False)) (startGame H True s)) \<and>
         startGame H False s = session H [Frame False] (startGame H True s)"
  using calm_run[OF startGame_hidden_fields(1) assms(1)] assms(2)
  by (simp add: startGame_hidden_fields(2) startGame_hidden(2))

subsection \<open>A long fall\<close>

lemma count_zero: "(\<And>x. x \<in> set xs \<Longrightarrow> \<not> P x) \<Longrightarrow> count P xs = 0"
  by (induction xs) simp_all

lemma in_map_filter: "y \<in> set (List.map_filter f xs) \<longleftrightarrow> (\<exists>x \<in> set xs. f x = Some y)"
  by (induction xs) (auto simp add: List.map_filter_simps split: option.splits)

lemma spawn_entries:
  "ob \<in> set (obstacles (spawn H s)) \<Longrightarrow>
     ob \<in> set (obstacles s) \<or> o_x ob = canvasWidth s \<and> o_width ob = 80"
  "st \<in> set (stars (spawn H s)) \<Longrightarrow>
     st \<in> set (stars s) \<or> st_x st = canvasWidth s \<and> st_size st = 15"
  "pu \<in> set (powerUps (spawn H s)) \<Longrightarrow>
     pu \<in> set (powerUps s) \<or> pu_x pu = canvasWidth s \<and> pu_size pu = 20"
proof -
  let ?u = "updateRocket H (levelled s)"
  have u: "obstacles ?u = obstacles s" "stars ?u = stars s" "powerUps ?u = powerUps s"
    "canvasWidth ?u = canvasWidth s"
    by (simp_all add: updateRocket_cases endGame_fields levelled_def)
  show "ob \<in> set (obstacles (spawn H s)) \<Longrightarrow>
     ob \<in> set (obstacles s) \<or> o_x ob = canvasWidth s \<and> o_width ob = 80"
    unfolding spawn_split using u
    by (auto simp add: spawners_def Let_def createObstacle_def createStar_def
          createPowerUp_def split: if_splits)
  show "st \<in> set (stars (spawn H s)) \<Longrightarrow>
     st \<in> set (stars s) \<or> st_x st = canvasWidth s \<and> st_size st = 15"
    unfolding spawn_split using u
    by (auto simp add: spawners_def Let_def createObstacle_def createStar_def
          createPowerUp_def split: if_splits)
  show "pu \<in> set (powerUps (spawn H s)) \<Longrightarrow>
     pu \<in> set (powerUps s) \<or> pu_x pu = canvasWidth s \<and> pu_size pu = 20"
    unfolding spawn_split using u
    by (auto simp add: spawners_def Let_def createObstacle_def createStar_def
          createPowerUp_def split: if_splits)
qed

lemma far_from_reach:
  assumes "a \<le> - r" and "0 \<le> r"
  shows "\<not> hypot a b < r"
proof -
  have "r\<^sup>2 \<le> a\<^sup>2"
    using assms by (simp add: abs_le_square_iff[symmetric])
  moreover have "0 \<le> b\<^sup>2"
    by simp
  ultimately have "\<not> a\<^sup>2 + b\<^sup>2 < r\<^sup>2"
    by linarith
  then show ?thesis
    by (simp add: hypot_less_iff)
qed

lemma freeFall_step:
  assumes "freeFall k u" and "k \<le> 500"
  shows "uneventful H u" and "freeFall (Suc k) (gameLoop H False u)"
proof -
  let ?t = "spawn H u"
  note ff = assms(1)[unfolded freeFall_def]
  have run: "gameRunning u" using ff by simp
  have g: "gameLoop H False u = advance H ?t"
    using run by (rule gameLoop_running)
  have "Suc k * (Suc k + 1) \<le> 501 * 502"
    using assms(2) by (intro mult_le_mono) simp_all
  then have "real (Suc k * (Suc k + 1)) \<le> real (501 * 502)"
    by (rule of_nat_mono)
  then have b: "real (Suc k * (Suc k + 1)) \<le> 251502"
    by simp
  have y: "r_y (fallen (rocket u)) = 100000 + real (Suc k * (Suc k + 1)) / 4"
    using ff by (simp add: field_simps)
  have v: "velocity (fallen (rocket u)) = real (Suc k) / 2"
    using ff by (simp add: field_simps)
  have ns: "\<not> hasShield (fallen (rocket u))"
    using ff by (simp add: fallen_shield)
  have nb: "\<not> outOfBounds u (fallen (rocket u))"
  proof -
    define z where "z = real (Suc k * (Suc k + 1))"
    have "0 \<le> z" "z \<le> 251502"
      using b by (simp_all add: z_def)
    then have "\<not> (100000 + z / 4 + 40 > 200000 \<or> 100000 + z / 4 < 0)"
      by linarith
    moreover have "r_height (fallen (rocket u)) = 40" "canvasHeight u = 200000"
      using ff by simp_all
    ultimately show ?thesis
      by (simp only: outOfBounds_def y z_def not_False_eq_True)
  qed
  have rt: "rocket ?t = fallen (rocket u)"
    using nb by (simp add: rocket_spawn_cases)
  have "1 \<le> levelOf (int k)" "levelOf (int k) \<le> 2"
    using assms(2) by (simp_all add: levelOf_def)
  then have sp: "3 \<le> scrollSpeed ?t" "scrollSpeed ?t \<le> 7 / 2"
    using ff by (simp_all add: scrollSpeed_def spawn_fields obstacleSpeed_def)
  have k: "real k \<le> 500"
    using assms(2) by simp
  have obs: "o_width ob = 80 \<and> 4000 - 7 / 2 * real k \<le> o_x ob" if "ob \<in> set (obstacles ?t)" for ob
    using spawn_entries(1)[OF that] ff by auto
  have sts: "st_size st = 15 \<and> 4000 - 7 / 2 * real k \<le> st_x st" if "st \<in> set (stars ?t)" for st
    using spawn_entries(2)[OF that] ff by auto
  have pus: "pu_size pu = 20 \<and> 4000 - 7 / 2 * real k \<le> pu_x pu" if "pu \<in> set (powerUps ?t)" for pu
    using spawn_entries(3)[OF that] ff by auto
  have geo: "r_x (rocket ?t) = 100" "r_width (rocket ?t) = 40" "r_height (rocket ?t) = 40"
    using ff by (simp_all add: rt)
  have c1: "count (obstacleHitNow ?t) (obstacles ?t) = 0"
  proof (rule count_zero)
    fix ob assume "ob \<in> set (obstacles ?t)"
    from obs[OF this] sp k show "\<not> obstacleHitNow ?t ob"
      by (simp add: obstacleHitNow_def checkCollision_def geo)
  qed
  have c2: "count (obstaclePassedNow ?t) (obstacles ?t) = 0"
  proof (rule count_zero)
    fix ob assume "ob \<in> set (obstacles ?t)"
    from obs[OF this] sp k show "\<not> obstaclePassedNow ?t ob"
      by (simp add: obstaclePassedNow_def geo)
  qed
  have c3: "count (starCollectedNow ?t) (stars ?t) = 0"
  proof (rule count_zero)
    fix st assume "st \<in> set (stars ?t)"
    from sts[OF this] sp k
    have "r_x (rocket ?t) + r_width (rocket ?t) / 2 - (st_x st - scrollSpeed ?t)
            \<le> - (st_size st + r_width (rocket ?t) / 2)"
      and "0 \<le> st_size st + r_width (rocket ?t) / 2"
      by (simp_all add: geo)
    then show "\<not> starCollectedNow ?t st"
      unfolding starCollectedNow_def using far_from_reach by blast
  qed
  have c4: "count (powerUpCollectedNow ?t) (powerUps ?t) = 0"
  proof (rule count_zero)
    fix pu assume "pu \<in> set (powerUps ?t)"
    from pus[OF this] sp k
    have "r_x (rocket ?t) + r_width (rocket ?t) / 2 - (pu_x pu - scrollSpeed ?t)
            \<le> - (pu_size pu + r_width (rocket ?t) / 2)"
      and "0 \<le> pu_size pu + r_width (rocket ?t) / 2"
      by (simp_all add: geo)
    then show "\<not> powerUpCollectedNow ?t pu"
      unfolding powerUpCollectedNow_def using far_from_reach by blast
  qed
  show "uneventful H u"
    by (simp add: uneventful_def nb c1 c2 c3)
  note tf = trail_frame[OF trail_advance[of H ?t]]
  have sk: "4000 - 7 / 2 * real (Suc k) = 4000 - 7 / 2 * real k - 7 / 2"
    by (simp add: algebra_simps)
  have "gameRunning (advance H ?t)"
    using run nb by (simp add: advance_fields spawn_fields c1)
  moreover have "score (advance H ?t) = int (Suc k)"
    using ff by (simp add: advance_fields spawn_fields c2 c3)
  moreover have "frameCount (advance H ?t) = int (Suc k)"
    using ff by (simp add: tf spawn_fields)
  moreover have "canvasWidth (advance H ?t) = 4000" "canvasHeight (advance H ?t) = 200000"
    using ff by (simp_all add: tf spawn_fields)
  moreover have "r_x (rocket (advance H ?t)) = 100" "r_width (rocket (advance H ?t)) = 40"
    "r_height (rocket (advance H ?t)) = 40" "gravity (rocket (advance H ?t)) = 1 / 2"
    using ff by (simp_all add: tf rt fallen_def Let_def)
  moreover have "\<not> hasShield (rocket (advance H ?t))"
    using ns by (simp add: advance_fields c4 rt)
  moreover have "velocity (rocket (advance H ?t)) = real (Suc k) / 2"
    using v by (simp add: tf rt)
  moreover have "r_y (rocket (advance H ?t)) = 100000 + real (Suc k * (Suc k + 1)) / 4"
    using y by (simp add: tf rt)
  moreover have "o_width ob' = 80 \<and> 4000 - 7 / 2 * real k - 7 / 2 \<le> o_x ob'"
    if "ob' \<in> set (obstacles (advance H ?t))" for ob'
  proof -
    from that obtain ob where o: "ob \<in> set (obstacles ?t)" and l: "obstacleLeft ?t ob = Some ob'"
      by (auto simp add: advance_lists in_map_filter)
    from l have "o_x ob' = o_x ob - scrollSpeed ?t" "o_width ob' = o_width ob"
      by (auto simp add: obstacleLeft_def split: if_splits)
    with obs[OF o] sp show ?thesis
      by auto
  qed
  moreover have "st_size st' = 15 \<and> 4000 - 7 / 2 * real k - 7 / 2 \<le> st_x st'"
    if "st' \<in> set (stars (advance H ?t))" for st'
  proof -
    from that obtain st where o: "st \<in> set (stars ?t)" and l: "starLeft ?t st = Some st'"
      by (auto simp add: advance_lists in_map_filter)
    from l have "st_x st' = st_x st - scrollSpeed ?t" "st_size st' = st_size st"
      by (auto simp add: starLeft_def split: if_splits)
    with sts[OF o] sp show ?thesis
      by auto
  qed
  moreover have "pu_size pu' = 20 \<and> 4000 - 7 / 2 * real k - 7 / 2 \<le> pu_x pu'"
    if "pu' \<in> set (powerUps (advance H ?t))" for pu'
  proof -
    from that obtain pu where o: "pu \<in> set (powerUps ?t)" and l: "powerUpLeft ?t pu = Some pu'"
      by (auto simp add: advance_lists in_map_filter)
    from l have "pu_x pu' = pu_x pu - scrollSpeed ?t" "pu_size pu' = pu_size pu"
      by (auto simp add: powerUpLeft_def split: if_splits)
    with pus[OF o] sp show ?thesis
      by auto
  qed
  ultimately show "freeFall (Suc k) (gameLoop H False u)"
    unfolding freeFall_def g sk by blast
qed

lemma freeFall_calm:
  "freeFall k u \<Longrightarrow> k + n \<le> 501 \<Longrightarrow>
     calm H n u \<and> freeFall (k + n) (session H (replicate n (Frame False)) u)"
proof (induction n arbitrary: k u)
  case 0
  then show ?case by simp
next
  case (Suc n)
  from Suc.prems have k: "k \<le> 500" by simp
  note s = freeFall_step[OF Suc.prems(1) k, of H]
  from Suc.prems have "Suc k + n \<le> 501" by simp
  from Suc.IH[OF s(2) this] s(1) show ?case
    by simp
qed

lemma tallPage_fields:
  "canvasWidth tallPage = 4000" "canvasHeight tallPage = 200000"
  "rocket tallPage = initialRocket\<lparr>r_y := 100000, velocity := 0, hasShield := False,
                                     shieldTime := 0\<rparr>"
  by (simp_all add: tallPage_def initGame_def Let_def resetGame_def orElse_def)

lemma freeFall_tallStart: "freeFall 0 tallStart"
  by (simp add: freeFall_def tallStart_def startGame_hidden_fields tallPage_fields
        initialRocket_def)

lemma tallStart_run:
  assumes "0 < n" and "n \<le> 501"
  shows "calm plainHost n tallStart"
    and "gameRunning (session plainHost (replicate n (Frame False)) tallStart)"
    and "score (session plainHost (replicate n (Frame False)) tallStart) = int n"
    and "level (session plainHost (replicate n (Frame False)) tallStart) = levelOf (int n - 1)"
proof -
  from freeFall_calm[OF freeFall_tallStart, of n plainHost] assms
  show c: "calm plainHost n tallStart"
    by simp
  have r: "gameRunning tallStart" "score tallStart = 0"
    by (simp_all add: tallStart_def startGame_hidden_fields)
  from calm_run[OF r(1) c] assms(1)
  show "gameRunning (session plainHost (replicate n (Frame False)) tallStart)"
    and "score (session plainHost (replicate n (Frame False)) tallStart) = int n"
    and "level (session plainHost (replicate n (Frame False)) tallStart) = levelOf (int n - 1)"
    by (simp_all add: r)
qed

theorem calm_frames_count_witness:
  "calm plainHost 500 (startGame plainHost True tallPage) \<and>
   score (session plainHost (replicate 500 (Frame False)) (startGame plainHost True tallPage)) = 500 \<and>
   level (session plainHost (replicate 500 (Frame False)) (startGame plainHost True tallPage)) = 1"
proof -
  have c: "calm plainHost 500 (startGame plainHost True tallPage)"
    using tallStart_run(1)[of 500] by (simp add: tallStart_def)
  from calm_frames_count[OF c] c show ?thesis
    by (simp add: levelOf_def)
qed

theorem five_hundred_frames_leave_level_1:
  "calm plainHost 500 tallStart \<and>
   gameRunning (session plainHost (replicate 500 (Frame False)) tallStart) \<and>
   score (session plainHost (replicate 500 (Frame False)) tallStart) = 500 \<and>
   level (session plainHost (replicate 500 (Frame False)) tallStart) = 1 \<and>
   score (session plainHost (replicate 501 (Frame False)) tallStart) = 501 \<and>
   level (session plainHost (replicate 501 (Frame False)) tallStart) = 2"
  using tallStart_run[of 500] tallStart_run[of 501]
  by (simp add: levelOf_def)

theorem level_behind_the_score_at_500:
  "gameRunning (session plainHost (replicate 500 (Frame False)) tallStart) \<and>
   score (session plainHost (replicate 500 (Frame False)) tallStart) = 500 \<and>
   level (session plainHost (replicate 500 (Frame False)) tallStart) \<noteq>
     levelOf (score (session plainHost (replicate 500 (Frame False)) tallStart))"
  using tallStart_run[of 500]
  by (simp add: levelOf_def)

end
